theory Spec2Isabelle
  imports Complex_Main
begin

section \<open>Python strings\<close>

text \<open>
  A Python \<open>str\<close> is a sequence of Unicode code points; it is modelled as a list of
  natural numbers. \<open>str\<close> turns an Isabelle string literal into such a list.
\<close>

type_synonym pystr = "nat list"

definition str :: "string \<Rightarrow> pystr" where
  "str cs = map of_char cs"

text \<open>\<open>s.startswith(p)\<close>.\<close>

fun startswith :: "pystr \<Rightarrow> pystr \<Rightarrow> bool" where
  "startswith s [] = True"
| "startswith [] (p # ps) = False"
| "startswith (c # cs) (p # ps) = (c = p \<and> startswith cs ps)"

text \<open>\<open>sub in s\<close> for two strings: \<open>sub\<close> occurs in \<open>s\<close> as a contiguous block.\<close>

fun str_contains :: "pystr \<Rightarrow> pystr \<Rightarrow> bool" where
  "str_contains [] sub = (sub = [])"
| "str_contains (c # cs) sub = (startswith (c # cs) sub \<or> str_contains cs sub)"

text \<open>
  \<open>s.count(sub)\<close>: the number of non-overlapping occurrences, found from left to right.
  After an occurrence the scan resumes behind it: \<open>skip\<close> counts the characters of the
  occurrence that are still to be passed over.
\<close>

fun count_from :: "nat \<Rightarrow> pystr \<Rightarrow> pystr \<Rightarrow> nat" where
  "count_from skip [] sub = 0"
| "count_from skip (c # cs) sub =
     (if 0 < skip then count_from (skip - 1) cs sub
      else if startswith (c # cs) sub then 1 + count_from (length sub - 1) cs sub
      else count_from 0 cs sub)"

definition str_count :: "pystr \<Rightarrow> pystr \<Rightarrow> nat" where
  "str_count s sub = (if sub = [] then length s + 1 else count_from 0 s sub)"

text \<open>
  \<open>s.lower()\<close>, as far as ASCII letters are concerned. The letters A to Z go to a to z;
  U+0130 goes to \<open>i\<close> followed by U+0307 and U+212A (the Kelvin sign) goes to \<open>k\<close>.
  Python sends every other code point to code points outside ASCII; they are left as
  they are here, which does not change where an ASCII keyword occurs in the result.
\<close>

definition lower_cp :: "nat \<Rightarrow> pystr" where
  "lower_cp c =
     (if 65 \<le> c \<and> c \<le> 90 then [c + 32]
      else if c = 304 then [105, 775]
      else if c = 8490 then [107]
      else [c])"

definition str_lower :: "pystr \<Rightarrow> pystr" where
  "str_lower s = concat (map lower_cp s)"


text \<open>
  \<open>s.upper()\<close>, as far as ASCII letters are concerned: the letters a to z go to A to Z,
  and the code points listed are the ones whose upper case contains ASCII letters. Every
  other code point is left as it is (Python sends it to code points outside ASCII).
\<close>

definition upper_cp :: "nat \<Rightarrow> pystr" where
  "upper_cp c =
     (if 97 \<le> c \<and> c \<le> 122 then [c - 32]
      else if c = 223 then [83, 83]
      else if c = 305 then [73]
      else if c = 329 then [700, 78]
      else if c = 383 then [83]
      else if c = 496 then [74, 780]
      else if c = 7830 then [72, 817]
      else if c = 7831 then [84, 776]
      else if c = 7832 then [87, 778]
      else if c = 7833 then [89, 778]
      else if c = 7834 then [65, 702]
      else if c = 64256 then [70, 70]
      else if c = 64257 then [70, 73]
      else if c = 64258 then [70, 76]
      else if c = 64259 then [70, 70, 73]
      else if c = 64260 then [70, 70, 76]
      else if c = 64261 \<or> c = 64262 then [83, 84]
      else [c])"

definition str_upper :: "pystr \<Rightarrow> pystr" where
  "str_upper s = concat (map upper_cp s)"

text \<open>\<open>sep.join(parts)\<close> and \<open>s.split('\n')\<close>.\<close>

fun str_join :: "pystr \<Rightarrow> pystr list \<Rightarrow> pystr" where
  "str_join sep [] = []"
| "str_join sep [p] = p"
| "str_join sep (p # q # ps) = p @ sep @ str_join sep (q # ps)"

fun split_lines :: "pystr \<Rightarrow> pystr list" where
  "split_lines [] = [[]]"
| "split_lines (c # cs) =
     (if c = 10 then [] # split_lines cs
      else (case split_lines cs of
              [] \<Rightarrow> [[c]]
            | l # ls \<Rightarrow> (c # l) # ls))"

text \<open>\<open>s.strip(chars)\<close>: the characters of \<open>chars\<close> are removed from both ends.\<close>

definition strip_chars :: "pystr \<Rightarrow> pystr \<Rightarrow> pystr" where
  "strip_chars chars s =
     rev (dropWhile (\<lambda>c. c \<in> set chars) (rev (dropWhile (\<lambda>c. c \<in> set chars) s)))"

text \<open>
  \<open>c.isspace()\<close>, which is also what \<open>\s\<close> matches in a \<open>str\<close> pattern and what
  \<open>strip()\<close> removes.
\<close>

definition is_space :: "nat \<Rightarrow> bool" where
  "is_space c =
     ((9 \<le> c \<and> c \<le> 13) \<or> (28 \<le> c \<and> c \<le> 32) \<or> c = 133 \<or> c = 160 \<or> c = 5760
      \<or> (8192 \<le> c \<and> c \<le> 8202) \<or> c = 8232 \<or> c = 8233 \<or> c = 8239 \<or> c = 8287
      \<or> c = 12288)"

definition str_rstrip :: "pystr \<Rightarrow> pystr" where
  "str_rstrip s = rev (dropWhile is_space (rev s))"

definition str_strip :: "pystr \<Rightarrow> pystr" where
  "str_strip s = str_rstrip (dropWhile is_space s)"

text \<open>\<open>'%d' % n\<close> for a natural number.\<close>

fun show_nat :: "nat \<Rightarrow> pystr" where
  "show_nat n = (if n < 10 then [48 + n] else show_nat (n div 10) @ [48 + n mod 10])"

declare show_nat.simps [simp del]


section \<open>The complexity estimator\<close>

text \<open>
  \<open>calculate_thinking_level(files, code_content)\<close>. The source computes the score in
  double precision; the model uses exact rationals. Both agree: the line term is a
  multiple of 1/200 and every other term a multiple of 1/2, so a score either equals a
  threshold, and then all the intermediate values are exact doubles, or lies at least
  1/200 away from it, far more than the rounding error.
\<close>

definition security_keywords :: "pystr list" where
  "security_keywords =
     [str ''password'', str ''auth'', str ''token'', str ''secret'', str ''encrypt'',
      str ''sql'', str ''query'']"

definition has_security_code :: "pystr \<Rightarrow> bool" where
  "has_security_code code_content =
     list_ex (\<lambda>kw. str_contains (str_lower code_content) kw) security_keywords"

definition has_async :: "pystr \<Rightarrow> bool" where
  "has_async code_content =
     (str_contains code_content (str ''async'') \<or> str_contains code_content (str ''await''))"

definition has_classes :: "pystr \<Rightarrow> bool" where
  "has_classes code_content = (2 < str_count code_content (str ''class ''))"

definition complexity_score :: "pystr list \<Rightarrow> pystr \<Rightarrow> rat" where
  "complexity_score files code_content =
     (let total_lines = str_count code_content (str ''\<newline>'');
          file_count = length files
      in 0
         + min (of_nat total_lines / 200) 2
         + of_nat file_count * (1 / 2)
         + (if has_security_code code_content then 1 else 0)
         + (if has_async code_content then 1 / 2 else 0)
         + (if has_classes code_content then 1 / 2 else 0))"

definition calculate_thinking_level :: "pystr list \<Rightarrow> pystr \<Rightarrow> pystr" where
  "calculate_thinking_level files code_content =
     (if complexity_score files code_content < 3 / 2 then str ''minimal''
      else if complexity_score files code_content < 3 then str ''medium''
      else str ''high'')"

text \<open>
  The score as the specification words it: the newline count divided by 200 and capped
  at 2.0, plus 0.5 for each file, plus the three bonuses.
\<close>

definition spec_score :: "nat \<Rightarrow> nat \<Rightarrow> bool \<Rightarrow> bool \<Rightarrow> bool \<Rightarrow> rat" where
  "spec_score newlines file_count security asynchronous classes =
     (if of_nat newlines / 200 \<le> (2::rat) then of_nat newlines / 200 else 2)
     + of_nat file_count / 2
     + (if security then 1 else 0)
     + (if asynchronous then 1 / 2 else 0)
     + (if classes then 1 / 2 else 0)"

definition spec_level :: "rat \<Rightarrow> pystr" where
  "spec_level score =
     (if score < 3 / 2 then str ''minimal''
      else if 3 / 2 \<le> score \<and> score < 3 then str ''medium''
      else str ''high'')"


section \<open>Decoded JSON documents and Python's operations on them\<close>

text \<open>
  What \<open>json.loads\<close> returns: \<open>None\<close>, a \<open>bool\<close>, an \<open>int\<close>, a \<open>float\<close>, a
  \<open>str\<close>, a \<open>list\<close> or a \<open>dict\<close>. A float is kept as the text of its literal. A dict
  is an association list in insertion order.
\<close>

datatype json =
    JNull
  | JBool bool
  | JInt int
  | JFloat pystr
  | JString pystr
  | JArray "json list"
  | JObject "(pystr \<times> json) list"

text \<open>
  The exceptions of the modelled code. \<open>JSONDecodeError\<close> carries the text of
  \<open>str(e)\<close>. A computation that may raise returns \<open>Inl\<close> of the exception.
\<close>

datatype py_exc =
    JSONDecodeError pystr
  | TypeError
  | AttributeError
  | KeyError

definition bind :: "py_exc + 'a \<Rightarrow> ('a \<Rightarrow> py_exc + 'b) \<Rightarrow> py_exc + 'b" where
  "bind m f = (case m of Inl e \<Rightarrow> Inl e | Inr x \<Rightarrow> f x)"

text \<open>
  \<open>d[k] = v\<close> on the entries of a dict: an existing key keeps its place and takes the
  new value, a new key is added at the end.
\<close>

fun dict_set :: "pystr \<Rightarrow> json \<Rightarrow> (pystr \<times> json) list \<Rightarrow> (pystr \<times> json) list" where
  "dict_set k v [] = [(k, v)]"
| "dict_set k v ((k', v') # kvs) =
     (if k = k' then (k, v) # kvs else (k', v') # dict_set k v kvs)"

text \<open>
  \<open>k in x\<close> for a string \<open>k\<close>: key membership in a dict, element membership in a list,
  substring test in a string, \<open>TypeError\<close> for a number, a bool or \<open>None\<close>.
\<close>

definition py_contains :: "pystr \<Rightarrow> json \<Rightarrow> py_exc + bool" where
  "py_contains k x =
     (case x of
        JObject kvs \<Rightarrow> Inr (k \<in> set (map fst kvs))
      | JArray xs \<Rightarrow> Inr (JString k \<in> set xs)
      | JString s \<Rightarrow> Inr (str_contains s k)
      | _ \<Rightarrow> Inl TypeError)"

text \<open>\<open>x[k] = v\<close> for a string \<open>k\<close>: only a dict supports it.\<close>

definition py_setitem :: "json \<Rightarrow> pystr \<Rightarrow> json \<Rightarrow> py_exc + json" where
  "py_setitem x k v =
     (case x of
        JObject kvs \<Rightarrow> Inr (JObject (dict_set k v kvs))
      | _ \<Rightarrow> Inl TypeError)"

text \<open>\<open>x[k]\<close> for a string \<open>k\<close>.\<close>

definition py_getitem :: "json \<Rightarrow> pystr \<Rightarrow> py_exc + json" where
  "py_getitem x k =
     (case x of
        JObject kvs \<Rightarrow> (case map_of kvs k of None \<Rightarrow> Inl KeyError | Some v \<Rightarrow> Inr v)
      | _ \<Rightarrow> Inl TypeError)"

text \<open>\<open>x.get(k)\<close>: only a dict has the method; a missing key gives \<open>None\<close>.\<close>

definition py_get :: "json \<Rightarrow> pystr \<Rightarrow> py_exc + json" where
  "py_get x k =
     (case x of
        JObject kvs \<Rightarrow> Inr (case map_of kvs k of None \<Rightarrow> JNull | Some v \<Rightarrow> v)
      | _ \<Rightarrow> Inl AttributeError)"

text \<open>
  What a \<open>for\<close> loop or a generator visits: the elements of a list, the keys of a
  dict, the characters of a string.
\<close>

definition py_iter :: "json \<Rightarrow> py_exc + json list" where
  "py_iter x =
     (case x of
        JArray xs \<Rightarrow> Inr xs
      | JObject kvs \<Rightarrow> Inr (map (\<lambda>kv. JString (fst kv)) kvs)
      | JString s \<Rightarrow> Inr (map (\<lambda>c. JString [c]) s)
      | _ \<Rightarrow> Inl TypeError)"


section \<open>The JSON decoder of the standard library\<close>

text \<open>
  \<open>json.loads\<close> is not part of the repository. It is modelled after CPython 3.11 with
  its C scanner: which texts are documents, what they decode to, and the message and
  position of the \<open>JSONDecodeError\<close> otherwise. The text is first cut into tokens;
  a token that cannot be read ends the token list. The limits of the interpreter
  (recursion depth, the digit limit of \<open>int\<close>, memory) are not modelled.
\<close>

datatype token =
    TPunct nat
  | TString pystr
  | TAtom json
  | TBadString pystr nat
  | TJunk

definition is_json_ws :: "nat \<Rightarrow> bool" where
  "is_json_ws c = (c = 32 \<or> c = 9 \<or> c = 10 \<or> c = 13)"

definition is_digit :: "nat \<Rightarrow> bool" where
  "is_digit c = (48 \<le> c \<and> c \<le> 57)"

definition hex_val :: "nat \<Rightarrow> nat option" where
  "hex_val c =
     (if 48 \<le> c \<and> c \<le> 57 then Some (c - 48)
      else if 97 \<le> c \<and> c \<le> 102 then Some (c - 87)
      else if 65 \<le> c \<and> c \<le> 70 then Some (c - 55)
      else None)"

text \<open>The value of exactly four hexadecimal digits.\<close>

definition hex4 :: "pystr \<Rightarrow> nat option" where
  "hex4 ds =
     (case map hex_val ds of
        [Some a, Some b, Some c, Some d] \<Rightarrow> Some (((a * 16 + b) * 16 + c) * 16 + d)
      | _ \<Rightarrow> None)"

definition escape_char :: "nat \<Rightarrow> nat option" where
  "escape_char e =
     (if e = 34 \<or> e = 92 \<or> e = 47 then Some e
      else if e = 98 then Some 8
      else if e = 102 then Some 12
      else if e = 110 then Some 10
      else if e = 114 then Some 13
      else if e = 116 then Some 9
      else None)"

text \<open>The two messages that contain a backslash (code point 92).\<close>

definition msg_bad_escape :: pystr where
  "msg_bad_escape = str ''Invalid '' @ [92] @ str ''escape''"

definition msg_bad_unicode :: pystr where
  "msg_bad_unicode = str ''Invalid '' @ [92] @ str ''uXXXX escape''"

text \<open>
  \<open>scanstring\<close>, strict: \<open>begin\<close> is the index of the opening quote, \<open>pos\<close> the index of
  the first character of \<open>cs\<close>, \<open>acc\<close> the characters decoded so far. The result is the
  decoded string and the index behind the closing quote, or a message and the index
  it is reported at. A unicode escape needs its four digits and one more character behind
  them; a high surrogate is joined with a low surrogate escape that follows it.
\<close>

fun scanstring :: "nat \<Rightarrow> nat \<Rightarrow> pystr \<Rightarrow> pystr \<Rightarrow> (pystr \<times> nat) + (pystr \<times> nat)" where
  "scanstring begin pos acc [] = Inl (str ''Unterminated string starting at'', begin)"
| "scanstring begin pos acc (c # cs) =
     (if c = 34 then Inr (acc, pos + 1)
      else if c = 92 then
        (case cs of
           [] \<Rightarrow> Inl (str ''Unterminated string starting at'', begin)
         | e # cs' \<Rightarrow>
             if e \<noteq> 117 then
               (case escape_char e of
                  None \<Rightarrow> Inl (msg_bad_escape, pos)
                | Some ch \<Rightarrow> scanstring begin (pos + 2) (acc @ [ch]) cs')
             else if length cs' \<le> 4 then Inl (msg_bad_unicode, pos + 1)
             else
               (case hex4 (take 4 cs') of
                  None \<Rightarrow> Inl (msg_bad_unicode, pos + 1)
                | Some c1 \<Rightarrow>
                    if 55296 \<le> c1 \<and> c1 \<le> 56319 \<and> 6 < length (drop 4 cs')
                       \<and> take 2 (drop 4 cs') = [92, 117] then
                      (case hex4 (take 4 (drop 6 cs')) of
                         None \<Rightarrow> Inl (msg_bad_unicode, pos + 7)
                       | Some c2 \<Rightarrow>
                           if 56320 \<le> c2 \<and> c2 \<le> 57343 then
                             scanstring begin (pos + 12)
                               (acc @ [65536 + ((c1 - 55296) * 1024 + (c2 - 56320))])
                               (drop 10 cs')
                           else scanstring begin (pos + 6) (acc @ [c1]) (drop 4 cs'))
                    else scanstring begin (pos + 6) (acc @ [c1]) (drop 4 cs')))
      else if c \<le> 31 then Inl (str ''Invalid control character at'', pos)
      else scanstring begin (pos + 1) (acc @ [c]) cs)"

text \<open>
  A number at the head of the text: an optional minus sign, \<open>0\<close> or a digit string
  without a leading zero, an optional fraction, an optional exponent. The result is the
  value and the number of characters read.
\<close>

definition nat_of_digits :: "pystr \<Rightarrow> nat" where
  "nat_of_digits ds = foldl (\<lambda>a d. 10 * a + (d - 48)) 0 ds"

definition int_part :: "pystr \<Rightarrow> pystr" where
  "int_part s =
     (case s of
        [] \<Rightarrow> []
      | d # r \<Rightarrow>
          if d = 48 then [48]
          else if 49 \<le> d \<and> d \<le> 57 then d # takeWhile is_digit r
          else [])"

definition frac_part :: "pystr \<Rightarrow> pystr" where
  "frac_part s =
     (case s of
        dot # d # r \<Rightarrow> if dot = 46 \<and> is_digit d then dot # d # takeWhile is_digit r else []
      | _ \<Rightarrow> [])"

definition exp_part :: "pystr \<Rightarrow> pystr" where
  "exp_part s =
     (case s of
        [] \<Rightarrow> []
      | e # r \<Rightarrow>
          if e = 101 \<or> e = 69 then
            (let sign = (case r of [] \<Rightarrow> [] | g # _ \<Rightarrow> if g = 43 \<or> g = 45 then [g] else []);
                 digits = takeWhile is_digit (drop (length sign) r)
             in if digits = [] then [] else e # sign @ digits)
          else [])"

definition match_number :: "pystr \<Rightarrow> (json \<times> nat) option" where
  "match_number s =
     (let sign = (if startswith s [45] then [45] else []);
          whole = int_part (drop (length sign) s);
          frac = frac_part (drop (length (sign @ whole)) s);
          ex = exp_part (drop (length (sign @ whole @ frac)) s)
      in if whole = [] then None
         else if frac = [] \<and> ex = [] then
           Some (JInt (if sign = [] then int (nat_of_digits whole)
                       else - int (nat_of_digits whole)),
                 length (sign @ whole))
         else Some (JFloat (sign @ whole @ frac @ ex), length (sign @ whole @ frac @ ex)))"

text \<open>A value that is neither a string nor a container, at the head of the text.\<close>

definition scan_atom :: "pystr \<Rightarrow> (json \<times> nat) option" where
  "scan_atom s =
     (if startswith s (str ''null'') then Some (JNull, 4)
      else if startswith s (str ''true'') then Some (JBool True, 4)
      else if startswith s (str ''false'') then Some (JBool False, 5)
      else if startswith s (str ''NaN'') then Some (JFloat (str ''NaN''), 3)
      else if startswith s (str ''Infinity'') then Some (JFloat (str ''Infinity''), 8)
      else if startswith s (str ''-Infinity'') then Some (JFloat (str ''-Infinity''), 9)
      else match_number s)"

definition is_punct :: "nat \<Rightarrow> bool" where
  "is_punct c = (c = 123 \<or> c = 125 \<or> c = 91 \<or> c = 93 \<or> c = 58 \<or> c = 44)"

text \<open>The tokens of a text with the index each starts at.\<close>

fun lex :: "nat \<Rightarrow> pystr \<Rightarrow> (nat \<times> token) list" where
  "lex pos [] = []"
| "lex pos (c # cs) =
     (if is_json_ws c then lex (pos + 1) cs
      else if is_punct c then (pos, TPunct c) # lex (pos + 1) cs
      else if c = 34 then
        (case scanstring pos (pos + 1) [] cs of
           Inl (msg, epos) \<Rightarrow> [(pos, TBadString msg epos)]
         | Inr (s, stop) \<Rightarrow> (pos, TString s) # lex stop (drop (stop - (pos + 1)) cs))
      else
        (case scan_atom (c # cs) of
           None \<Rightarrow> [(pos, TJunk)]
         | Some (v, n) \<Rightarrow> (pos, TAtom v) # lex (pos + n) (drop (n - 1) cs)))"

text \<open>
  The parser reads the tokens from left to right. \<open>mode\<close> says what may come next, the
  stack holds the containers that are still open: an array with its values so far, an
  object with its entries so far and the key whose value is being read.
\<close>

datatype mode =
    Value
  | ValueOrEnd
  | KeyOrEnd
  | Key "(pystr \<times> json) list"
  | Colon "(pystr \<times> json) list" pystr
  | Done json

datatype frame =
    FArray "json list"
  | FObject "(pystr \<times> json) list" pystr

definition begin_value ::
  "frame list \<Rightarrow> nat \<Rightarrow> token \<Rightarrow> (pystr \<times> nat) + (mode \<times> frame list)" where
  "begin_value st pos tok =
     (case tok of
        TAtom v \<Rightarrow> Inr (Done v, st)
      | TString s \<Rightarrow> Inr (Done (JString s), st)
      | TBadString msg epos \<Rightarrow> Inl (msg, epos)
      | TPunct c \<Rightarrow>
          if c = 91 then Inr (ValueOrEnd, FArray [] # st)
          else if c = 123 then Inr (KeyOrEnd, st)
          else Inl (str ''Expecting value'', pos)
      | TJunk \<Rightarrow> Inl (str ''Expecting value'', pos))"

definition begin_key ::
  "(pystr \<times> json) list \<Rightarrow> frame list \<Rightarrow> nat \<Rightarrow> token \<Rightarrow> (pystr \<times> nat) + (mode \<times> frame list)"
  where
  "begin_key pairs st pos tok =
     (case tok of
        TString k \<Rightarrow> Inr (Colon pairs k, st)
      | TBadString msg epos \<Rightarrow> Inl (msg, epos)
      | _ \<Rightarrow> Inl (str ''Expecting property name enclosed in double quotes'', pos))"

definition step ::
  "mode \<Rightarrow> frame list \<Rightarrow> nat \<Rightarrow> token \<Rightarrow> (pystr \<times> nat) + (mode \<times> frame list)" where
  "step m st pos tok =
     (case m of
        Value \<Rightarrow> begin_value st pos tok
      | ValueOrEnd \<Rightarrow>
          if tok = TPunct 93 then Inr (Done (JArray []), tl st) else begin_value st pos tok
      | KeyOrEnd \<Rightarrow>
          if tok = TPunct 125 then Inr (Done (JObject []), st) else begin_key [] st pos tok
      | Key pairs \<Rightarrow> begin_key pairs st pos tok
      | Colon pairs k \<Rightarrow>
          if tok = TPunct 58 then Inr (Value, FObject pairs k # st)
          else Inl (str ''Expecting ':' delimiter'', pos)
      | Done v \<Rightarrow>
          (case st of
             [] \<Rightarrow> Inl (str ''Extra data'', pos)
           | FArray vs # st' \<Rightarrow>
               if tok = TPunct 93 then Inr (Done (JArray (vs @ [v])), st')
               else if tok = TPunct 44 then Inr (Value, FArray (vs @ [v]) # st')
               else Inl (str ''Expecting ',' delimiter'', pos)
           | FObject pairs k # st' \<Rightarrow>
               if tok = TPunct 125 then Inr (Done (JObject (dict_set k v pairs)), st')
               else if tok = TPunct 44 then Inr (Key (dict_set k v pairs), st')
               else Inl (str ''Expecting ',' delimiter'', pos)))"

text \<open>At the end of the text: the document is complete, or something is missing.\<close>

definition finish :: "nat \<Rightarrow> mode \<Rightarrow> frame list \<Rightarrow> (pystr \<times> nat) + json" where
  "finish len m st =
     (case m of
        Value \<Rightarrow> Inl (str ''Expecting value'', len)
      | ValueOrEnd \<Rightarrow> Inl (str ''Expecting value'', len)
      | KeyOrEnd \<Rightarrow> Inl (str ''Expecting property name enclosed in double quotes'', len)
      | Key pairs \<Rightarrow> Inl (str ''Expecting property name enclosed in double quotes'', len)
      | Colon pairs k \<Rightarrow> Inl (str ''Expecting ':' delimiter'', len)
      | Done v \<Rightarrow> if st = [] then Inr v else Inl (str ''Expecting ',' delimiter'', len))"

fun parse :: "nat \<Rightarrow> mode \<Rightarrow> frame list \<Rightarrow> (nat \<times> token) list \<Rightarrow> (pystr \<times> nat) + json" where
  "parse len m st [] = finish len m st"
| "parse len m st ((pos, tok) # ts) =
     (case step m st pos tok of
        Inl e \<Rightarrow> Inl e
      | Inr (m', st') \<Rightarrow> parse len m' st' ts)"

text \<open>
  The text of a \<open>JSONDecodeError\<close>: the message, the line and the column of the index,
  and the index.
\<close>

definition errmsg :: "pystr \<Rightarrow> pystr \<Rightarrow> nat \<Rightarrow> pystr" where
  "errmsg msg doc pos =
     (let lineno = str_count (take pos doc) [10] + 1;
          colno = length (takeWhile (\<lambda>c. c \<noteq> 10) (rev (take pos doc))) + 1
      in msg @ str '': line '' @ show_nat lineno @ str '' column '' @ show_nat colno
         @ str '' (char '' @ show_nat pos @ str '')'')"

definition json_loads :: "pystr \<Rightarrow> py_exc + json" where
  "json_loads s =
     (if startswith s [65279] then
        Inl (JSONDecodeError (errmsg (str ''Unexpected UTF-8 BOM (decode using utf-8-sig)'') s 0))
      else
        (case parse (length s) Value [] (lex 0 s) of
           Inl (msg, pos) \<Rightarrow> Inl (JSONDecodeError (errmsg msg s pos))
         | Inr v \<Rightarrow> Inr v))"


section \<open>The response normalizer, after decoding\<close>

text \<open>
  The loop \<open>for i, issue in enumerate(data["issues"], 1)\<close>: an issue without the key
  \<open>id\<close> gets its position.
\<close>

fun backfill :: "nat \<Rightarrow> json list \<Rightarrow> py_exc + json list" where
  "backfill i [] = Inr []"
| "backfill i (issue # rest) =
     bind (py_contains (str ''id'') issue) (\<lambda>has_id.
     bind (if \<not> has_id then py_setitem issue (str ''id'') (JInt (int i)) else Inr issue)
       (\<lambda>issue.
     bind (backfill (i + 1) rest) (\<lambda>rest. Inr (issue # rest))))"

text \<open>
  The loop on the value stored under \<open>issues\<close>. The issues of a list are updated in
  place; the keys of a dict and the characters of a string cannot be, and the loop
  raises on the first of them that lacks \<open>id\<close>.
\<close>

definition ensure_ids :: "json \<Rightarrow> py_exc + json" where
  "ensure_ids issues =
     bind (py_iter issues) (\<lambda>items.
     bind (backfill 1 items) (\<lambda>items.
     Inr (case issues of JArray _ \<Rightarrow> JArray items | _ \<Rightarrow> issues)))"

text \<open>\<open>sum(1 for i in issues if i.get(k) == s)\<close>.\<close>

fun count_where :: "pystr \<Rightarrow> pystr \<Rightarrow> json list \<Rightarrow> py_exc + nat" where
  "count_where k s [] = Inr 0"
| "count_where k s (i # rest) =
     bind (py_get i k) (\<lambda>v.
     bind (count_where k s rest) (\<lambda>n.
     Inr ((if v = JString s then 1 else 0) + n)))"

definition sum_where :: "pystr \<Rightarrow> pystr \<Rightarrow> json \<Rightarrow> py_exc + json" where
  "sum_where k s issues =
     bind (py_iter issues) (\<lambda>items.
     bind (count_where k s items) (\<lambda>n. Inr (JInt (int n))))"

definition default_summary :: json where
  "default_summary =
     JObject [(str ''verdict'', JString (str ''request_changes'')),
              (str ''overview'', JString (str ''Review completed'')),
              (str ''stats'', JObject [])]"

text \<open>\<open>if k not in data: data[k] = v\<close>.\<close>

definition set_default :: "json \<Rightarrow> pystr \<Rightarrow> json \<Rightarrow> py_exc + json" where
  "set_default data k v =
     bind (py_contains k data) (\<lambda>present.
     if \<not> present then py_setitem data k v else Inr data)"

text \<open>
  The body of the \<open>try\<close> block of \<open>parse_json_response\<close> behind \<open>json.loads\<close>, in
  the three parts the source marks by its comments. The source updates the dicts in
  place; the model writes each updated part back into the dict that holds it.
\<close>

text \<open>Validate required fields.\<close>

definition apply_defaults :: "json \<Rightarrow> py_exc + json" where
  "apply_defaults data =
     bind (set_default data (str ''summary'') default_summary) (\<lambda>data.
     bind (set_default data (str ''issues'') (JArray [])) (\<lambda>data.
     set_default data (str ''positive_aspects'') (JArray [])))"

text \<open>
  Calculate stats: \<open>summary\<close> is \<open>data["summary"]\<close> and \<open>issues\<close> is \<open>data["issues"]\<close>.
  Each count is computed before it is stored.
\<close>

definition recompute_stats :: "json \<Rightarrow> json \<Rightarrow> py_exc + json" where
  "recompute_stats summary issues =
     bind (set_default summary (str ''stats'') (JObject [])) (\<lambda>summary.
     bind (py_getitem summary (str ''stats'')) (\<lambda>stats.
     bind (sum_where (str ''severity'') (str ''blocking'') issues) (\<lambda>n.
     bind (py_setitem stats (str ''blocking'') n) (\<lambda>stats.
     bind (sum_where (str ''severity'') (str ''non-blocking'') issues) (\<lambda>n.
     bind (py_setitem stats (str ''warning'') n) (\<lambda>stats.
     bind (sum_where (str ''type'') (str ''suggestion'') issues) (\<lambda>n.
     bind (py_setitem stats (str ''suggestion'') n) (\<lambda>stats.
     py_setitem summary (str ''stats'') stats))))))))"

definition validate :: "json \<Rightarrow> py_exc + json" where
  "validate data =
     bind (apply_defaults data) (\<lambda>data.
     bind (py_getitem data (str ''issues'')) (\<lambda>issues.
     bind (ensure_ids issues) (\<lambda>issues.
     bind (py_setitem data (str ''issues'') issues) (\<lambda>data.
     bind (py_getitem data (str ''summary'')) (\<lambda>summary.
     bind (recompute_stats summary issues) (\<lambda>summary.
     py_setitem data (str ''summary'') summary))))))"


section \<open>The response normalizer\<close>

text \<open>
  The search for a fenced block, \<open>re.search\<close> with the pattern
  \<^verbatim>\<open>```(?:json)?\s*([\s\S]*?)\s*```\<close>, and its group 1. A match starts at the
  first fence of the text, takes the tag \<open>json\<close> if it is there, then all white space;
  the group runs up to the next fence, without the white space in front of that fence.
  There is a match if and only if a second fence follows the first one, since neither
  the tag nor white space contains a backquote.
\<close>

definition fence :: pystr where
  "fence = [96, 96, 96]"

text \<open>The text in front of the first fence and the text behind it.\<close>

fun split_fence :: "pystr \<Rightarrow> (pystr \<times> pystr) option" where
  "split_fence [] = None"
| "split_fence (c # cs) =
     (if startswith (c # cs) fence then Some ([], drop 2 cs)
      else (case split_fence cs of
              None \<Rightarrow> None
            | Some (before, after) \<Rightarrow> Some (c # before, after)))"

definition fence_search :: "pystr \<Rightarrow> pystr option" where
  "fence_search text =
     (case split_fence text of
        None \<Rightarrow> None
      | Some (before, after) \<Rightarrow>
          (let after = (if startswith after (str ''json'') then drop 4 after else after);
               body = dropWhile is_space after
           in case split_fence body of
                None \<Rightarrow> None
              | Some (inner, rest) \<Rightarrow> Some (str_rstrip inner)))"

text \<open>The text that is handed to \<open>json.loads\<close>.\<close>

definition pre_decode :: "pystr \<Rightarrow> pystr" where
  "pre_decode response_text =
     str_strip (case fence_search response_text of
                  Some inner \<Rightarrow> inner
                | None \<Rightarrow> response_text)"

definition error_result :: "pystr \<Rightarrow> pystr \<Rightarrow> json" where
  "error_result e response_text =
     JObject [(str ''error'', JString (str ''JSON_PARSE_ERROR'')),
              (str ''message'', JString (str ''Failed to parse response: '' @ e)),
              (str ''raw_response'', JString (take 500 response_text))]"

text \<open>
  \<open>parse_json_response(response_text)\<close>: the handler catches \<open>JSONDecodeError\<close> and
  nothing else.
\<close>

definition parse_json_response :: "pystr \<Rightarrow> py_exc + json" where
  "parse_json_response response_text =
     (let response_text = pre_decode response_text
      in case bind (json_loads response_text) validate of
           Inl (JSONDecodeError e) \<Rightarrow> Inr (error_result e response_text)
         | Inl exc \<Rightarrow> Inl exc
         | Inr data \<Rightarrow> Inr data)"


section \<open>The groups of the interactive report\<close>

text \<open>
  A list comprehension \<open>[i for i in issues if p(i)]\<close>, where the test may raise.
\<close>

fun select_where :: "(json \<Rightarrow> py_exc + bool) \<Rightarrow> json list \<Rightarrow> py_exc + json list" where
  "select_where p [] = Inr []"
| "select_where p (i # rest) =
     bind (p i) (\<lambda>keep.
     bind (select_where p rest) (\<lambda>rest.
     Inr (if keep then i # rest else rest)))"

text \<open>\<open>i.get(k) == s\<close> and \<open>i.get(k) != s\<close>.\<close>

definition get_eq :: "pystr \<Rightarrow> pystr \<Rightarrow> json \<Rightarrow> py_exc + bool" where
  "get_eq k s i = bind (py_get i k) (\<lambda>v. Inr (v = JString s))"

definition get_ne :: "pystr \<Rightarrow> pystr \<Rightarrow> json \<Rightarrow> py_exc + bool" where
  "get_ne k s i = bind (py_get i k) (\<lambda>v. Inr (v \<noteq> JString s))"

text \<open>
  The three lists that \<open>format_interactive_output\<close> builds from \<open>issues\<close>, the
  value a result holds under that key; the blocking, the warning and the suggestion
  block of the report each list the issues of one of them, in this order. \<open>and\<close> evaluates its right operand only when the left
  one holds.
\<close>

definition blocking_issues :: "json \<Rightarrow> py_exc + json list" where
  "blocking_issues issues =
     bind (py_iter issues) (select_where (get_eq (str ''severity'') (str ''blocking'')))"

definition warning_issues :: "json \<Rightarrow> py_exc + json list" where
  "warning_issues issues =
     bind (py_iter issues)
       (select_where (\<lambda>i.
          bind (get_eq (str ''severity'') (str ''non-blocking'') i) (\<lambda>non_blocking.
          if non_blocking then get_ne (str ''type'') (str ''suggestion'') i else Inr False)))"

definition suggestion_issues :: "json \<Rightarrow> py_exc + json list" where
  "suggestion_issues issues =
     bind (py_iter issues) (select_where (get_eq (str ''type'') (str ''suggestion'')))"


section \<open>The prompt\<close>

text \<open>The constant \<open>JSON_SCHEMA\<close>.\<close>

definition JSON_SCHEMA :: pystr where
  \<open>JSON_SCHEMA = str_join [10]
     [str ''{'',
      str ''  "summary": {'',
      str ''    "verdict": "approve|request_changes",'',
      str ''    "overview": "string",'',
      str ''    "stats": {"blocking": 0, "warning": 0, "suggestion": 0}'',
      str ''  },'',
      str ''  "issues": ['',
      str ''    {'',
      str ''      "id": 1,'',
      str ''      "type": "issue|suggestion|nitpick|praise",'',
      str ''      "severity": "blocking|non-blocking",'',
      str ''      "priority": "critical|high|medium|low",'',
      str ''      "category": "security|performance|quality|bug|style",'',
      str ''      "file": "filename.py",'',
      str ''      "line": 42,'',
      str ''      "code_snippet": "problematic code here",'',
      str ''      "title": "Short issue title",'',
      str ''      "description": "Detailed explanation",'',
      str ''      "suggested_fix": "Code or description of fix",'',
      str ''      "effort": "trivial|small|medium|large"'',
      str ''    }'',
      str ''  ],'',
      str ''  "positive_aspects": ["Good use of...", "Clean structure..."]'',
      str ''}'']\<close>

text \<open>The four fixed parts of the prompt of \<open>build_review_prompt\<close>, in the order in which they
  stand around the focus instruction, the code and the schema.\<close>

definition prompt_methodology :: pystr where
  \<open>prompt_methodology = str_join [10]
     [str ''You are an expert code reviewer using Conventional Comments methodology.'',
      str '''',
      str ''## Review Methodology'',
      str '''',
      str ''**Label each issue:**'',
      str ''- `issue(blocking)`: MUST fix - security vulnerabilities, bugs, data loss risks'',
      str ''- `issue(non-blocking)`: SHOULD fix - performance, error handling'',
      str ''- `suggestion`: Could improve - refactoring, patterns'',
      str ''- `nitpick`: Minor - style, naming preferences'',
      str ''- `praise`: What's done well'',
      str '''',
      str ''**Priority (Microsoft guidelines):**'',
      str ''1. Security vulnerabilities '' @ [8594] @ str '' critical'',
      str ''2. Bugs/correctness '' @ [8594] @ str '' high'',
      str ''3. Performance '' @ [8594] @ str '' high (if measurable)'',
      str ''4. Maintainability '' @ [8594] @ str '' medium'',
      str ''5. Style '' @ [8594] @ str '' low'',
      str '''',
      str '''']\<close>

definition prompt_code_heading :: pystr where
  \<open>prompt_code_heading = str_join [10]
     [str '''',
      str '''',
      str ''## Code to Review'',
      str '''',
      str '''']\<close>

definition prompt_output_heading :: pystr where
  \<open>prompt_output_heading = str_join [10]
     [str '''',
      str '''',
      str ''## Output Requirements'',
      str '''',
      str ''Respond with **valid JSON only** (no markdown, no code blocks, no extra text).'',
      str '''',
      str ''Schema:'',
      str '''']\<close>

definition prompt_rules :: pystr where
  \<open>prompt_rules = str_join [10]
     [str '''',
      str '''',
      str ''IMPORTANT:'',
      str ''- Include exact line numbers (count from 1)'',
      str ''- code_snippet: The actual problematic code'',
      str ''- suggested_fix: Copy-pasteable fix or clear instruction'',
      str ''- effort: trivial (<5min), small (<30min), medium (<2hr), large (>2hr)'',
      str ''- If code is excellent with no issues, verdict="approve" with empty issues array'',
      str ''- Maximum 10 issues unless code has serious problems'',
      str ''- Always include at least one positive_aspect'']\<close>

text \<open>
  \<open>build_review_prompt(code_content, focus)\<close>; \<open>focus\<close> is \<open>None\<close> or a string, and an
  empty or unknown one adds no instruction.
\<close>

definition focus_map :: "(pystr \<times> pystr) list" where
  "focus_map =
     [(str ''security'',
       str ''Focus especially on security: injection, secrets, auth, XSS, CSRF.''),
      (str ''performance'',
       str ''Focus especially on performance: O(n'' @ [178]
         @ str ''), memory leaks, blocking ops.''),
      (str ''quality'',
       str ''Focus especially on quality: SOLID, naming, modularity, complexity.'')]"

definition build_review_prompt :: "pystr \<Rightarrow> pystr option \<Rightarrow> pystr" where
  "build_review_prompt code_content focus =
     (let focus_instruction =
            (case focus of
               None \<Rightarrow> []
             | Some f \<Rightarrow>
                 if f = [] then []
                 else (case map_of focus_map f of None \<Rightarrow> [] | Some text \<Rightarrow> text))
      in prompt_methodology @ focus_instruction @ prompt_code_heading @ code_content
         @ prompt_output_heading @ JSON_SCHEMA @ prompt_rules)"


section \<open>The review orchestrator\<close>

text \<open>
  What \<open>review_code\<close> takes from outside the program: whether the client package can be
  imported or installed, the environment variable and the lines of the \<open>.env\<close> file
  (if there is one), the file system as \<open>pathlib\<close> shows it, the remote call (given the
  key, the temperature and the prompt it returns the text of the reply, or fails with
  the text of its exception), and the text of an exception raised while the reply is
  normalized.
\<close>

record env =
  genai_installed :: bool
  environ_key :: "pystr option"
  dotenv_lines :: "pystr list option"
  path_exists :: "pystr \<Rightarrow> bool"
  path_is_file :: "pystr \<Rightarrow> bool"
  path_suffix :: "pystr \<Rightarrow> pystr"
  read_text :: "pystr \<Rightarrow> pystr + pystr"
  generate_content :: "pystr \<Rightarrow> rat \<Rightarrow> pystr \<Rightarrow> pystr + pystr"
  exc_text :: "py_exc \<Rightarrow> pystr"

text \<open>
  \<open>get_api_key()\<close>: the environment variable if it is set and not empty, else the
  value of the first line of \<open>.env\<close> that starts with \<open>GEMINI_API_KEY=\<close>.
\<close>

fun key_from_lines :: "pystr list \<Rightarrow> pystr option" where
  "key_from_lines [] = None"
| "key_from_lines (line # rest) =
     (if startswith (str_strip line) (str ''GEMINI_API_KEY='')
      then Some (strip_chars [34, 39] (drop 15 (str_strip line)))
      else key_from_lines rest)"

definition get_api_key :: "env \<Rightarrow> pystr option" where
  "get_api_key e =
     (case environ_key e of
        Some k \<Rightarrow>
          if k \<noteq> [] then Some k
          else (case dotenv_lines e of None \<Rightarrow> None | Some ls \<Rightarrow> key_from_lines ls)
      | None \<Rightarrow> (case dotenv_lines e of None \<Rightarrow> None | Some ls \<Rightarrow> key_from_lines ls))"

definition skip_extensions :: "pystr list" where
  "skip_extensions =
     [str ''.json'', str ''.yaml'', str ''.yml'', str ''.toml'', str ''.md'', str ''.txt'',
      str ''.lock'', str ''.log'']"

text \<open>\<open>f"{i:4d}"\<close>: the number, padded with blanks on the left to four characters.\<close>

definition format_4d :: "nat \<Rightarrow> pystr" where
  "format_4d i = replicate (4 - length (show_nat i)) 32 @ show_nat i"

text \<open>The lines of a file with their numbers, counted from 1.\<close>

fun numbered_lines :: "nat \<Rightarrow> pystr list \<Rightarrow> pystr list" where
  "numbered_lines i [] = []"
| "numbered_lines i (line # rest) =
     (format_4d i @ str '' | '' @ line) # numbered_lines (i + 1) rest"

definition error_dict :: "pystr \<Rightarrow> pystr \<Rightarrow> json" where
  "error_dict kind message =
     JObject [(str ''error'', JString kind), (str ''message'', JString message)]"

text \<open>
  The loop over the candidate files, with the two lists it appends to. A file over
  50000 characters adds its placeholder to \<open>code_parts\<close> and nothing to \<open>valid_files\<close>.
\<close>

fun read_files :: "env \<Rightarrow> pystr list \<Rightarrow> pystr list \<Rightarrow> pystr list \<Rightarrow> pystr list \<times> pystr list" where
  "read_files e [] code_parts valid_files = (code_parts, valid_files)"
| "read_files e (file_path # rest) code_parts valid_files =
     (if \<not> path_exists e file_path \<or> \<not> path_is_file e file_path then
        read_files e rest code_parts valid_files
      else if str_lower (path_suffix e file_path) \<in> set skip_extensions then
        read_files e rest code_parts valid_files
      else
        (case read_text e file_path of
           Inl err \<Rightarrow>
             read_files e rest
               (code_parts @ [str ''### '' @ file_path @ [10] @ str ''[Error reading: '' @ err
                  @ str '']''])
               valid_files
         | Inr content \<Rightarrow>
             if 50000 < length content then
               read_files e rest
                 (code_parts @ [str ''### '' @ file_path @ [10] @ str ''[File too large - ''
                    @ show_nat (length content) @ str '' bytes, skipped]''])
                 valid_files
             else
               read_files e rest
                 (code_parts @ [str ''### '' @ file_path @ [10] @ fence
                    @ (if path_suffix e file_path \<noteq> [] then drop 1 (path_suffix e file_path)
                       else [])
                    @ [10] @ str_join [10] (numbered_lines 1 (split_lines content)) @ [10]
                    @ fence])
                 (valid_files @ [file_path])))"

text \<open>The sampling temperature for a thinking level.\<close>

definition temperature :: "pystr \<Rightarrow> rat" where
  "temperature thinking_level =
     (if thinking_level = str ''high'' then 2 / 10
      else if thinking_level = str ''minimal'' then 5 / 10
      else 3 / 10)"

text \<open>The handler \<open>except Exception as e\<close> around the remote call, on \<open>str(e)\<close>.\<close>

definition api_failure :: "pystr \<Rightarrow> json" where
  "api_failure error_msg =
     (if str_contains (str_upper error_msg) (str ''API_KEY'') \<or> str_contains error_msg (str ''401'')
      then error_dict (str ''INVALID_KEY'') (str ''Invalid API key'')
      else error_dict (str ''API_ERROR'') error_msg)"

text \<open>The run metadata that is stored under \<open>meta\<close>.\<close>

definition meta :: "pystr list \<Rightarrow> pystr \<Rightarrow> pystr option \<Rightarrow> json" where
  "meta valid_files thinking_level focus =
     JObject [(str ''files'', JArray (map JString valid_files)),
              (str ''thinking_level'', JString thinking_level),
              (str ''focus'', (case focus of None \<Rightarrow> JNull | Some f \<Rightarrow> JString f))]"

text \<open>
  \<open>review_code(files, focus, thinking_level)\<close>. \<open>focus\<close> and \<open>thinking_level\<close> are
  \<open>None\<close> or a string; the parameter \<open>output_json\<close> is not used by the source.
\<close>

definition review_code :: "env \<Rightarrow> pystr list \<Rightarrow> pystr option \<Rightarrow> pystr option \<Rightarrow> json" where
  "review_code e files focus thinking_level =
     (if \<not> genai_installed e then
        error_dict (str ''INSTALL_FAILED'') (str ''Could not install google-genai'')
      else
        (case get_api_key e of
           None \<Rightarrow> error_dict (str ''NO_API_KEY'') (str ''GEMINI_API_KEY not found'')
         | Some api_key \<Rightarrow>
             if api_key = [] then
               error_dict (str ''NO_API_KEY'') (str ''GEMINI_API_KEY not found'')
             else
               (let (code_parts, valid_files) = read_files e files [] []
                in if valid_files = [] then
                     error_dict (str ''NO_FILES'') (str ''No valid code files to review'')
                   else
                     (let code_content = str_join [10, 10] code_parts;
                          thinking_level =
                            (case thinking_level of
                               None \<Rightarrow> calculate_thinking_level valid_files code_content
                             | Some l \<Rightarrow>
                                 if l = [] then calculate_thinking_level valid_files code_content
                                 else l);
                          prompt = build_review_prompt code_content focus
                      in case generate_content e api_key (temperature thinking_level) prompt of
                           Inl error_msg \<Rightarrow> api_failure error_msg
                         | Inr text \<Rightarrow>
                             (case bind (parse_json_response text) (\<lambda>result.
                                   bind (py_contains (str ''error'') result) (\<lambda>is_error.
                                   if \<not> is_error then
                                     py_setitem result (str ''meta'')
                                       (meta valid_files thinking_level focus)
                                   else Inr result)) of
                                Inl exc \<Rightarrow> api_failure (exc_text e exc)
                              | Inr result \<Rightarrow> result)))))"

section \<open>Notions used to state the properties\<close>

text \<open>An issue carries the string \<open>s\<close> in its field \<open>k\<close>.\<close>

definition has_field :: "pystr \<Rightarrow> pystr \<Rightarrow> json \<Rightarrow> bool" where
  "has_field k s i = (py_get i k = Inr (JString s))"

definition is_object :: "json \<Rightarrow> bool" where
  "is_object x = (case x of JObject kvs \<Rightarrow> True | _ \<Rightarrow> False)"

text \<open>An object has the key \<open>k\<close>.\<close>

definition has_key :: "pystr \<Rightarrow> json \<Rightarrow> bool" where
  "has_key k x = (case x of JObject kvs \<Rightarrow> k \<in> set (map fst kvs) | _ \<Rightarrow> False)"


text \<open>
  The decoded documents on which the normalization is sure to return: an object whose
  summary, if it has one, is an object whose stats, if it has any, is an object, and whose
  issues, if it has any, are a list of objects.
\<close>

definition well_shaped :: "json \<Rightarrow> bool" where
  "well_shaped d =
     (case d of
        JObject kvs \<Rightarrow>
          (case map_of kvs (str ''summary'') of
             None \<Rightarrow> True
           | Some (JObject sm) \<Rightarrow>
               (case map_of sm (str ''stats'') of None \<Rightarrow> True | Some st \<Rightarrow> is_object st)
           | Some _ \<Rightarrow> False)
          \<and> (case map_of kvs (str ''issues'') of
                None \<Rightarrow> True
              | Some (JArray xs) \<Rightarrow> list_all is_object xs
              | Some _ \<Rightarrow> False)
      | _ \<Rightarrow> False)"

text \<open>
  The shape of a success result: an object with a summary that holds stats, with issues
  and with positive aspects.
\<close>

definition success_shaped :: "json \<Rightarrow> bool" where
  "success_shaped r =
     (has_key (str ''summary'') r \<and> has_key (str ''issues'') r
      \<and> has_key (str ''positive_aspects'') r
      \<and> (case py_getitem r (str ''summary'') of
            Inr summary \<Rightarrow>
              (case py_getitem summary (str ''stats'') of
                 Inr stats \<Rightarrow>
                   has_key (str ''blocking'') stats \<and> has_key (str ''warning'') stats
                   \<and> has_key (str ''suggestion'') stats
               | Inl _ \<Rightarrow> False)
          | Inl _ \<Rightarrow> False))"

text \<open>The ids of the issues of a result, in order; \<open>None\<close> where an issue has none.\<close>

definition issue_ids :: "json \<Rightarrow> json list" where
  "issue_ids r =
     (case py_getitem r (str ''issues'') of
        Inr (JArray xs) \<Rightarrow>
          map (\<lambda>i. case py_get i (str ''id'') of Inr v \<Rightarrow> v | Inl _ \<Rightarrow> JNull) xs
      | _ \<Rightarrow> [])"

text \<open>
  A document with other values under the counters of its \<open>summary.stats\<close>: the value
  of \<open>blocking\<close> replaced by \<open>a\<close>, that of \<open>warning\<close> by \<open>b\<close> and that of \<open>suggestion\<close> by
  \<open>c\<close>, each where the key is there. Nothing else changes.
\<close>

definition replace_value :: "pystr \<Rightarrow> json \<Rightarrow> (pystr \<times> json) list \<Rightarrow> (pystr \<times> json) list" where
  "replace_value k v kvs = (if k \<in> set (map fst kvs) then dict_set k v kvs else kvs)"

definition with_counters :: "json \<Rightarrow> json \<Rightarrow> json \<Rightarrow> json \<Rightarrow> json" where
  "with_counters a b c d =
     (case d of
        JObject kvs \<Rightarrow>
          (case map_of kvs (str ''summary'') of
             Some (JObject sm) \<Rightarrow>
               (case map_of sm (str ''stats'') of
                  Some (JObject st) \<Rightarrow>
                    JObject (dict_set (str ''summary'')
                      (JObject (dict_set (str ''stats'')
                         (JObject (replace_value (str ''suggestion'') c
                            (replace_value (str ''warning'') b
                               (replace_value (str ''blocking'') a st))))
                         sm))
                      kvs)
                | _ \<Rightarrow> d)
           | _ \<Rightarrow> d)
      | _ \<Rightarrow> d)"

text \<open>A token that cannot be read: it makes the parser fail, wherever it stands.\<close>

definition unreadable :: "token \<Rightarrow> bool" where
  "unreadable tok = (case tok of TJunk \<Rightarrow> True | TBadString msg epos \<Rightarrow> True | _ \<Rightarrow> False)"


section \<open>Example replies\<close>

definition reply_three_issues :: pystr where
  "reply_three_issues = str ''{\"summary\": {\"verdict\": \"approve\", \"stats\": {\"blocking\": 9}}, \"issues\": [{\"severity\": \"blocking\"}, {\"severity\": \"non-blocking\", \"type\": \"suggestion\"}, {\"id\": 7, \"type\": \"suggestion\", \"severity\": \"blocking\"}]}''"

definition reply_mixed_ids :: pystr where
  "reply_mixed_ids = str ''{\"issues\": [{\"id\": 2}, {}]}''"

definition reply_no_ids :: pystr where
  "reply_no_ids = str ''{\"issues\": [{\"title\": \"a\"}, {\"title\": \"b\"}]}''"

definition reply_summary_only :: pystr where
  "reply_summary_only = str ''{\"summary\": {\"verdict\": \"approve\"}}''"

definition blocking_suggestion :: json where
  "blocking_suggestion =
     JObject [(str ''id'', JInt 1), (str ''type'', JString (str ''suggestion'')),
              (str ''severity'', JString (str ''blocking''))]"

definition reply_extra_stats :: pystr where
  "reply_extra_stats = str ''{\"summary\": {\"stats\": {\"extra\": 1}}}''"

definition reply_empty_stats :: pystr where
  "reply_empty_stats = str ''{\"summary\": {\"stats\": {}}}''"

definition reply_stats_claimed :: pystr where
  "reply_stats_claimed = str ''{\"summary\": {\"stats\": {\"blocking\": 5, \"note\": \"x\"}}, \"issues\": [{\"severity\": \"blocking\"}]}''"

definition reply_stats_other :: pystr where
  "reply_stats_other = str ''{\"summary\": {\"stats\": {\"blocking\": 0, \"note\": \"x\"}}, \"issues\": [{\"severity\": \"blocking\"}]}''"

definition reply_fence_in_string :: pystr where
  "reply_fence_in_string = str ''{\"summary\": {\"overview\": \"use ```\"}}''"

definition oversized_env :: env where
  "oversized_env =
     \<lparr>genai_installed = True,
      environ_key = Some (str ''secret-key''),
      dotenv_lines = None,
      path_exists = (\<lambda>p. True),
      path_is_file = (\<lambda>p. True),
      path_suffix = (\<lambda>p. str ''.py''),
      read_text = (\<lambda>p. Inr (replicate 50001 97)),
      generate_content = (\<lambda>key temp prompt. Inr []),
      exc_text = (\<lambda>exc. [])\<rparr>"

text \<open>
  A candidate file adds nothing to the valid files when it is missing, not a regular
  file, excluded by its extension, unreadable or oversized.
\<close>

definition contributes_nothing :: "env \<Rightarrow> pystr \<Rightarrow> bool" where
  "contributes_nothing e file_path =
     (\<not> path_exists e file_path \<or> \<not> path_is_file e file_path
      \<or> str_lower (path_suffix e file_path) \<in> set skip_extensions
      \<or> (case read_text e file_path of
            Inl err \<Rightarrow> True
          | Inr content \<Rightarrow> 50000 < length content))"


section \<open>Facts about strings\<close>

lemma startswith_first:
  "startswith s (p # ps) \<Longrightarrow> s \<noteq> [] \<and> hd s = p"
  by (cases s) auto

lemma str_contains_replicate:
  "p \<noteq> c \<Longrightarrow> \<not> str_contains (replicate n c) (p # ps)"
  by (induction n) auto

lemma count_from_replicate_other:
  "p \<noteq> c \<Longrightarrow> count_from k (replicate n c) (p # ps) = 0"
  by (induction n arbitrary: k) auto

lemma count_from_replicate_same:
  "count_from 0 (replicate n c) [c] = n"
  by (induction n) auto

lemma str_lower_replicate_newline:
  "str_lower (replicate n 10) = replicate n 10"
  by (induction n) (auto simp: str_lower_def lower_cp_def)

lemma newlines_plain:
  "str_count (replicate n 10) (str ''\<newline>'') = n"
  by (simp add: str_count_def str_def count_from_replicate_same)

lemma plain_no_security: "\<not> has_security_code (replicate n 10)"
  by (simp add: has_security_code_def security_keywords_def str_lower_replicate_newline
      str_def str_contains_replicate)

lemma plain_no_async: "\<not> has_async (replicate n 10)"
  by (simp add: has_async_def str_def str_contains_replicate)

lemma plain_no_classes: "\<not> has_classes (replicate n 10)"
  by (simp add: has_classes_def str_count_def str_def count_from_replicate_other)

lemma level_names_differ:
  "str ''minimal'' \<noteq> str ''medium''" "str ''medium'' \<noteq> str ''high''"
  "str ''minimal'' \<noteq> str ''high''" "str ''medium'' \<noteq> str ''minimal''"
  "str ''high'' \<noteq> str ''medium''" "str ''high'' \<noteq> str ''minimal''"
  by (simp_all add: str_def)


section \<open>Facts about the operations on documents\<close>

lemma bind_Inr_iff: "bind m f = Inr y \<longleftrightarrow> (\<exists>x. m = Inr x \<and> f x = Inr y)"
  by (cases m) (auto simp: bind_def)

lemma bind_Inl_iff: "bind m f = Inl e \<longleftrightarrow> m = Inl e \<or> (\<exists>x. m = Inr x \<and> f x = Inl e)"
  by (cases m) (auto simp: bind_def)

lemma bind_Inr [simp]: "bind (Inr x) f = f x"
  by (simp add: bind_def)

lemma bind_Inl [simp]: "bind (Inl e) f = Inl e"
  by (simp add: bind_def)

lemma map_of_dict_set:
  "map_of (dict_set k v kvs) k' = (if k' = k then Some v else map_of kvs k')"
  by (induction kvs) auto

lemma key_set_dict_set: "fst ` set (dict_set k v kvs) = insert k (fst ` set kvs)"
proof -
  have "(x \<in> fst ` set (dict_set k v kvs)) = (x = k \<or> x \<in> fst ` set kvs)" for x
    using map_of_eq_None_iff [of "dict_set k v kvs" x] map_of_eq_None_iff [of kvs x]
    by (simp add: map_of_dict_set split: if_splits)
  then show ?thesis by blast
qed

lemma dict_set_overwrite: "dict_set k v (dict_set k v' kvs) = dict_set k v kvs"
  by (induction kvs) auto

lemma dict_set_commute:
  "k \<noteq> k' \<Longrightarrow> map_of kvs k' \<noteq> None \<Longrightarrow>
     dict_set k v (dict_set k' v' kvs) = dict_set k' v' (dict_set k v kvs)"
  by (induction kvs) auto

lemma py_setitem_Inr:
  "py_setitem x k v = Inr y \<longleftrightarrow> (\<exists>kvs. x = JObject kvs \<and> y = JObject (dict_set k v kvs))"
  by (cases x) (auto simp: py_setitem_def)

lemma getitem_setitem:
  "py_setitem x k v = Inr y \<Longrightarrow>
     py_getitem y k' = (if k' = k then Inr v else py_getitem x k')"
  by (auto simp: py_setitem_Inr py_getitem_def map_of_dict_set)

lemma py_getitem_Inr:
  "py_getitem x k = Inr v \<longleftrightarrow> (\<exists>kvs. x = JObject kvs \<and> map_of kvs k = Some v)"
  by (cases x) (auto simp: py_getitem_def split: option.splits)

lemma has_key_iff: "has_key k (JObject kvs) = (map_of kvs k \<noteq> None)"
  by (simp add: has_key_def map_of_eq_None_iff)

lemma set_default_object:
  "set_default (JObject kvs) k v =
     Inr (JObject (if map_of kvs k = None then dict_set k v kvs else kvs))"
  by (simp add: set_default_def py_contains_def py_setitem_def map_of_eq_None_iff)

lemma count_where_length:
  "count_where k s items = Inr n \<Longrightarrow> n = length (filter (has_field k s) items)"
proof (induction items arbitrary: n)
  case Nil
  then show ?case by simp
next
  case (Cons i rest)
  from Cons.prems obtain v m where v: "py_get i k = Inr v"
    and m: "count_where k s rest = Inr m"
    and n: "n = (if v = JString s then 1 else 0) + m"
    by (auto simp: bind_Inr_iff)
  from Cons.IH [OF m] v n show ?case by (simp add: has_field_def)
qed

lemma sum_where_Inr:
  "sum_where k s issues = Inr n \<Longrightarrow>
     \<exists>items. py_iter issues = Inr items
       \<and> n = JInt (int (length (filter (has_field k s) items)))"
  by (auto simp: sum_where_def bind_Inr_iff dest: count_where_length)

lemma key_names_differ:
  "str ''issues'' \<noteq> str ''summary''" "str ''summary'' \<noteq> str ''issues''"
  "str ''blocking'' \<noteq> str ''warning''" "str ''blocking'' \<noteq> str ''suggestion''"
  "str ''warning'' \<noteq> str ''suggestion''"  "str ''warning'' \<noteq> str ''blocking''"
  "str ''suggestion'' \<noteq> str ''blocking''" "str ''suggestion'' \<noteq> str ''warning''"
  "str ''positive_aspects'' \<noteq> str ''summary''" "str ''positive_aspects'' \<noteq> str ''issues''"
  "str ''summary'' \<noteq> str ''positive_aspects''" "str ''issues'' \<noteq> str ''positive_aspects''"
  by (simp_all add: str_def)


section \<open>Facts about the normalization\<close>

text \<open>What a successful run of the normalization went through.\<close>

lemma validate_Inr_steps:
  assumes "validate d = Inr r"
  obtains d3 iss0 iss d4 sm0 sm2 where
        "apply_defaults d = Inr d3"
    and "py_getitem d3 (str ''issues'') = Inr iss0"
    and "ensure_ids iss0 = Inr iss"
    and "py_setitem d3 (str ''issues'') iss = Inr d4"
    and "py_getitem d4 (str ''summary'') = Inr sm0"
    and "recompute_stats sm0 iss = Inr sm2"
    and "py_setitem d4 (str ''summary'') sm2 = Inr r"
  using assms unfolding validate_def bind_Inr_iff by blast

lemma recompute_stats_counts:
  assumes "recompute_stats sm0 iss = Inr sm2"
  shows "\<exists>stats items.
      py_getitem sm2 (str ''stats'') = Inr stats
    \<and> py_iter iss = Inr items
    \<and> py_getitem stats (str ''blocking'')
        = Inr (JInt (int (length (filter (has_field (str ''severity'') (str ''blocking'')) items))))
    \<and> py_getitem stats (str ''warning'')
        = Inr (JInt (int (length (filter (has_field (str ''severity'') (str ''non-blocking'')) items))))
    \<and> py_getitem stats (str ''suggestion'')
        = Inr (JInt (int (length (filter (has_field (str ''type'') (str ''suggestion'')) items))))"
proof -
  from assms obtain sm1 st0 n1 st1 n2 st2 n3 st3 where
        n1: "sum_where (str ''severity'') (str ''blocking'') iss = Inr n1"
    and s1: "py_setitem st0 (str ''blocking'') n1 = Inr st1"
    and n2: "sum_where (str ''severity'') (str ''non-blocking'') iss = Inr n2"
    and s2: "py_setitem st1 (str ''warning'') n2 = Inr st2"
    and n3: "sum_where (str ''type'') (str ''suggestion'') iss = Inr n3"
    and s3: "py_setitem st2 (str ''suggestion'') n3 = Inr st3"
    and s4: "py_setitem sm1 (str ''stats'') st3 = Inr sm2"
    unfolding recompute_stats_def bind_Inr_iff by blast
  from sum_where_Inr [OF n1] obtain items where items: "py_iter iss = Inr items"
    and c1: "n1 = JInt (int (length (filter (has_field (str ''severity'') (str ''blocking'')) items)))"
    by blast
  from sum_where_Inr [OF n2] items
  have c2: "n2 = JInt (int (length (filter (has_field (str ''severity'') (str ''non-blocking'')) items)))"
    by auto
  from sum_where_Inr [OF n3] items
  have c3: "n3 = JInt (int (length (filter (has_field (str ''type'') (str ''suggestion'')) items)))"
    by auto
  have "py_getitem sm2 (str ''stats'') = Inr st3"
    using getitem_setitem [OF s4] by simp
  moreover have "py_getitem st3 (str ''blocking'') = Inr n1"
    using getitem_setitem [OF s3, of "str ''blocking''"] getitem_setitem [OF s2, of "str ''blocking''"]
      getitem_setitem [OF s1, of "str ''blocking''"]
    by (simp add: key_names_differ)
  moreover have "py_getitem st3 (str ''warning'') = Inr n2"
    using getitem_setitem [OF s3, of "str ''warning''"] getitem_setitem [OF s2, of "str ''warning''"]
    by (simp add: key_names_differ)
  moreover have "py_getitem st3 (str ''suggestion'') = Inr n3"
    using getitem_setitem [OF s3, of "str ''suggestion''"]
    by simp
  ultimately show ?thesis
    using items c1 c2 c3 by blast
qed

lemma validate_stats:
  assumes "validate d = Inr r"
  shows "\<exists>summary stats issues items.
      py_getitem r (str ''summary'') = Inr summary
    \<and> py_getitem summary (str ''stats'') = Inr stats
    \<and> py_getitem r (str ''issues'') = Inr issues
    \<and> py_iter issues = Inr items
    \<and> py_getitem stats (str ''blocking'')
        = Inr (JInt (int (length (filter (has_field (str ''severity'') (str ''blocking'')) items))))
    \<and> py_getitem stats (str ''warning'')
        = Inr (JInt (int (length (filter (has_field (str ''severity'') (str ''non-blocking'')) items))))
    \<and> py_getitem stats (str ''suggestion'')
        = Inr (JInt (int (length (filter (has_field (str ''type'') (str ''suggestion'')) items))))"
proof -
  from assms obtain d3 iss d4 sm0 sm2 where
        s0: "py_setitem d3 (str ''issues'') iss = Inr d4"
    and rs: "recompute_stats sm0 iss = Inr sm2"
    and s5: "py_setitem d4 (str ''summary'') sm2 = Inr r"
    by (rule validate_Inr_steps)
  have "py_getitem r (str ''summary'') = Inr sm2"
    using getitem_setitem [OF s5] by simp
  moreover have "py_getitem r (str ''issues'') = Inr iss"
    using getitem_setitem [OF s5, of "str ''issues''"] getitem_setitem [OF s0, of "str ''issues''"]
    by (simp add: key_names_differ)
  ultimately show ?thesis
    using recompute_stats_counts [OF rs] by blast
qed

text \<open>The operations on documents raise \<open>TypeError\<close>, \<open>AttributeError\<close> or \<open>KeyError\<close>.\<close>

lemma py_contains_raises: "py_contains k x = Inl e \<Longrightarrow> e = TypeError"
  by (cases x) (auto simp: py_contains_def)

lemma py_setitem_raises: "py_setitem x k v = Inl e \<Longrightarrow> e = TypeError"
  by (cases x) (auto simp: py_setitem_def)

lemma py_iter_raises: "py_iter x = Inl e \<Longrightarrow> e = TypeError"
  by (cases x) (auto simp: py_iter_def)

lemma py_get_raises: "py_get x k = Inl e \<Longrightarrow> e = AttributeError"
  by (cases x) (auto simp: py_get_def)

lemma py_getitem_raises:
  "py_getitem x k = Inl e \<Longrightarrow> e = TypeError \<or> (e = KeyError \<and> is_object x \<and> \<not> has_key k x)"
  by (cases x)
    (auto simp: py_getitem_def has_key_def is_object_def map_of_eq_None_iff split: option.splits)

lemma set_default_raises: "set_default x k v = Inl e \<Longrightarrow> e = TypeError"
  by (auto simp: set_default_def bind_Inl_iff dest: py_contains_raises py_setitem_raises
      split: if_splits)

lemma backfill_raises: "backfill i xs = Inl e \<Longrightarrow> e = TypeError"
  by (induction xs arbitrary: i)
    (auto simp: bind_Inl_iff dest: py_contains_raises py_setitem_raises split: if_splits)

lemma ensure_ids_raises: "ensure_ids x = Inl e \<Longrightarrow> e = TypeError"
  by (auto simp: ensure_ids_def bind_Inl_iff dest: py_iter_raises backfill_raises)

lemma count_where_raises: "count_where k s xs = Inl e \<Longrightarrow> e = AttributeError"
  by (induction xs) (auto simp: bind_Inl_iff dest: py_get_raises)

lemma sum_where_raises: "sum_where k s x = Inl e \<Longrightarrow> e = TypeError \<or> e = AttributeError"
  by (auto simp: sum_where_def bind_Inl_iff dest: py_iter_raises count_where_raises)

lemma has_key_setitem:
  "py_setitem x k v = Inr y \<Longrightarrow> is_object y \<and> has_key k' y = (k' = k \<or> has_key k' x)"
  by (auto simp: py_setitem_Inr has_key_def is_object_def key_set_dict_set)

lemma has_key_set_default:
  "set_default x k v = Inr y \<Longrightarrow> is_object y \<Longrightarrow>
     is_object x \<and> has_key k' y = (k' = k \<or> has_key k' x)"
  by (cases x)
    (auto simp: set_default_def bind_Inr_iff py_contains_def py_setitem_def has_key_def
      is_object_def key_set_dict_set split: if_splits, force+)

lemma apply_defaults_raises: "apply_defaults d = Inl e \<Longrightarrow> e = TypeError"
  by (auto simp: apply_defaults_def bind_Inl_iff dest: set_default_raises)

lemma apply_defaults_keys:
  assumes "apply_defaults d = Inr d3" and "is_object d3"
  shows "has_key (str ''summary'') d3 \<and> has_key (str ''issues'') d3
    \<and> has_key (str ''positive_aspects'') d3"
proof -
  from assms(1) obtain d1 d2 where
        a: "set_default d (str ''summary'') default_summary = Inr d1"
    and b: "set_default d1 (str ''issues'') (JArray []) = Inr d2"
    and c: "set_default d2 (str ''positive_aspects'') (JArray []) = Inr d3"
    unfolding apply_defaults_def bind_Inr_iff by blast
  note c' = has_key_set_default [OF c assms(2)]
  from c' have o2: "is_object d2" by simp
  note b' = has_key_set_default [OF b o2]
  from b' have o1: "is_object d1" by simp
  note a' = has_key_set_default [OF a o1]
  show ?thesis using a' b' c' by simp
qed

lemma recompute_stats_raises:
  assumes "recompute_stats sm iss = Inl e"
  shows "e = TypeError \<or> e = AttributeError"
proof -
  have key: False
    if a: "set_default sm0 (str ''stats'') (JObject []) = Inr sm1"
      and b: "is_object sm1" and c: "\<not> has_key (str ''stats'') sm1" for sm0 sm1
    using has_key_set_default [OF a b, of "str ''stats''"] c by auto
  from assms show ?thesis
    unfolding recompute_stats_def bind_Inl_iff
    by (elim disjE exE conjE)
      (auto dest!: set_default_raises py_setitem_raises sum_where_raises
        py_getitem_raises dest: key)
qed

lemma validate_raises:
  assumes "validate d = Inl e"
  shows "e = TypeError \<or> e = AttributeError"
proof -
  have key: False
    if a: "apply_defaults d = Inr d3" and b: "is_object d3"
      and c: "\<not> has_key (str ''issues'') d3" for d3
    using apply_defaults_keys [OF a b] c by simp
  have key2: False
    if a: "apply_defaults d = Inr d3"
      and e: "py_setitem d3 (str ''issues'') iss = Inr d4"
      and f: "\<not> has_key (str ''summary'') d4" for d3 d4 iss
  proof -
    from e have o3: "is_object d3" by (auto simp: py_setitem_Inr is_object_def)
    from has_key_setitem [OF e, of "str ''summary''"] f
    have "\<not> has_key (str ''summary'') d3" by auto
    with apply_defaults_keys [OF a o3] show False by simp
  qed
  from assms show ?thesis
    unfolding validate_def bind_Inl_iff
    by (elim disjE exE conjE)
      (auto dest!: apply_defaults_raises ensure_ids_raises py_setitem_raises
        recompute_stats_raises py_getitem_raises dest: key key2)
qed

lemma json_loads_raises: "json_loads s = Inl e \<Longrightarrow> \<exists>m. e = JSONDecodeError m"
  by (auto simp: json_loads_def split: if_splits sum.splits)

lemma parse_after_decode:
  "json_loads (pre_decode t) = Inr d \<Longrightarrow> parse_json_response t = validate d"
  by (auto simp: parse_json_response_def Let_def split: sum.splits py_exc.splits
      dest: validate_raises)

lemma parse_decode_failure:
  "json_loads (pre_decode t) = Inl (JSONDecodeError e) \<Longrightarrow>
     parse_json_response t = Inr (error_result e (pre_decode t))"
  by (simp add: parse_json_response_def Let_def)

lemmas eval_defs = str_def parse_json_response_def pre_decode_def fence_search_def fence_def
  str_strip_def str_rstrip_def is_space_def json_loads_def errmsg_def str_count_def
  is_json_ws_def is_punct_def scan_atom_def match_number_def int_part_def frac_part_def exp_part_def
  is_digit_def nat_of_digits_def hex4_def hex_val_def escape_char_def msg_bad_escape_def msg_bad_unicode_def
  step_def begin_value_def begin_key_def finish_def bind_def validate_def set_default_def
  apply_defaults_def recompute_stats_def
  py_contains_def py_setitem_def py_getitem_def py_get_def py_iter_def ensure_ids_def sum_where_def
  default_summary_def error_result_def Let_def show_nat.simps has_field_def has_key_def is_object_def
  issue_ids_def

lemma backfill_Inr:
  "backfill i xs = Inr ys \<Longrightarrow>
     length ys = length xs
     \<and> (\<forall>n<length xs.
           (py_contains (str ''id'') (xs ! n) = Inr True \<and> ys ! n = xs ! n)
         \<or> (py_contains (str ''id'') (xs ! n) = Inr False
            \<and> py_setitem (xs ! n) (str ''id'') (JInt (int (i + n))) = Inr (ys ! n)))"
proof (induction xs arbitrary: i ys)
  case Nil
  then show ?case by simp
next
  case (Cons x xs)
  from Cons.prems obtain has_id x' rest where
        h: "py_contains (str ''id'') x = Inr has_id"
    and x': "(if \<not> has_id then py_setitem x (str ''id'') (JInt (int i)) else Inr x) = Inr x'"
    and rest: "backfill (i + 1) xs = Inr rest"
    and ys: "ys = x' # rest"
    by (auto simp: bind_Inr_iff)
  from Cons.IH [OF rest] have len: "length rest = length xs"
    and step: "\<And>n. n < length xs \<Longrightarrow>
           (py_contains (str ''id'') (xs ! n) = Inr True \<and> rest ! n = xs ! n)
         \<or> (py_contains (str ''id'') (xs ! n) = Inr False
            \<and> py_setitem (xs ! n) (str ''id'') (JInt (int (i + 1 + n))) = Inr (rest ! n))"
    by auto
  show ?case
  proof (intro conjI allI impI)
    show "length ys = length (x # xs)" using ys len by simp
  next
    fix n assume n: "n < length (x # xs)"
    show "(py_contains (str ''id'') ((x # xs) ! n) = Inr True \<and> ys ! n = (x # xs) ! n)
         \<or> (py_contains (str ''id'') ((x # xs) ! n) = Inr False
            \<and> py_setitem ((x # xs) ! n) (str ''id'') (JInt (int (i + n))) = Inr (ys ! n))"
    proof (cases n)
      case 0
      with h x' ys show ?thesis by (cases has_id) auto
    next
      case (Suc m)
      with n step [of m] ys show ?thesis by simp
    qed
  qed
qed

lemma count_where_objects: "count_where k s xs = Inr n \<Longrightarrow> list_all is_object xs"
proof (induction xs arbitrary: n)
  case Nil
  then show ?case by simp
next
  case (Cons x xs)
  then show ?case
    by (cases x) (auto simp: bind_Inr_iff py_get_def is_object_def)
qed

lemma py_contains_object:
  "is_object x \<Longrightarrow> py_contains k x = Inr (has_key k x)"
  by (cases x) (auto simp: py_contains_def has_key_def is_object_def)

lemma py_get_setitem:
  "py_setitem x k v = Inr y \<Longrightarrow> py_get y k = Inr v"
  by (auto simp: py_setitem_Inr py_get_def map_of_dict_set)

lemma apply_defaults_supplied:
  assumes "apply_defaults d = Inr d3" and "py_getitem d k = Inr v"
  shows "py_getitem d3 k = Inr v"
  using assms
  by (auto simp: apply_defaults_def bind_Inr_iff py_getitem_Inr set_default_object
      map_of_dict_set)

lemma validate_issues:
  assumes v: "validate d = Inr r" and xs: "py_getitem d (str ''issues'') = Inr (JArray xs)"
  shows "\<exists>ys. py_getitem r (str ''issues'') = Inr (JArray ys) \<and> backfill 1 xs = Inr ys
    \<and> list_all is_object ys"
proof -
  from v obtain d3 iss0 iss d4 sm0 sm2 where
        a: "apply_defaults d = Inr d3"
    and g: "py_getitem d3 (str ''issues'') = Inr iss0"
    and e: "ensure_ids iss0 = Inr iss"
    and s0: "py_setitem d3 (str ''issues'') iss = Inr d4"
    and rs: "recompute_stats sm0 iss = Inr sm2"
    and s5: "py_setitem d4 (str ''summary'') sm2 = Inr r"
    by (rule validate_Inr_steps)
  from apply_defaults_supplied [OF a xs] g have "iss0 = JArray xs" by simp
  with e obtain ys where ys: "backfill 1 xs = Inr ys" and iss: "iss = JArray ys"
    by (auto simp: ensure_ids_def py_iter_def bind_Inr_iff)
  from rs iss obtain n where "count_where (str ''severity'') (str ''blocking'') ys = Inr n"
    unfolding recompute_stats_def bind_Inr_iff sum_where_def py_iter_def by auto
  then have "list_all is_object ys" by (rule count_where_objects)
  moreover have "py_getitem r (str ''issues'') = Inr iss"
    using getitem_setitem [OF s5, of "str ''issues''"] getitem_setitem [OF s0, of "str ''issues''"]
    by (simp add: key_names_differ)
  ultimately show ?thesis using ys iss by simp
qed

lemma validate_missing_issues:
  assumes v: "validate d = Inr r" and no: "\<not> has_key (str ''issues'') d"
  shows "py_getitem r (str ''issues'') = Inr (JArray [])"
proof -
  from v obtain d3 iss0 iss d4 sm0 sm2 where
        a: "apply_defaults d = Inr d3"
    and g: "py_getitem d3 (str ''issues'') = Inr iss0"
    and e: "ensure_ids iss0 = Inr iss"
    and s0: "py_setitem d3 (str ''issues'') iss = Inr d4"
    and s5: "py_setitem d4 (str ''summary'') sm2 = Inr r"
    by (rule validate_Inr_steps)
  from g obtain kvs3 where d3: "d3 = JObject kvs3" by (auto simp: py_getitem_Inr)
  from a d3 obtain kvs where d: "d = JObject kvs"
    by (cases d) (auto simp: apply_defaults_def bind_Inr_iff set_default_def py_contains_def
        py_setitem_def split: if_splits)
  from no d have "map_of kvs (str ''issues'') = None" by (simp add: has_key_iff)
  with a d g have "iss0 = JArray []"
    by (auto simp: apply_defaults_def set_default_object py_getitem_def map_of_dict_set
        key_names_differ split: if_splits option.splits)
  with e have "iss = JArray []"
    by (simp add: ensure_ids_def py_iter_def)
  then show ?thesis
    using getitem_setitem [OF s5, of "str ''issues''"] getitem_setitem [OF s0, of "str ''issues''"]
    by (simp add: key_names_differ)
qed

lemma validate_missing_positive:
  assumes v: "validate d = Inr r" and no: "\<not> has_key (str ''positive_aspects'') d"
  shows "py_getitem r (str ''positive_aspects'') = Inr (JArray [])"
proof -
  from v obtain d3 iss0 iss d4 sm0 sm2 where
        a: "apply_defaults d = Inr d3"
    and g: "py_getitem d3 (str ''issues'') = Inr iss0"
    and s0: "py_setitem d3 (str ''issues'') iss = Inr d4"
    and s5: "py_setitem d4 (str ''summary'') sm2 = Inr r"
    by (rule validate_Inr_steps)
  from g obtain kvs3 where d3: "d3 = JObject kvs3" by (auto simp: py_getitem_Inr)
  from a d3 obtain kvs where d: "d = JObject kvs"
    by (cases d) (auto simp: apply_defaults_def bind_Inr_iff set_default_def py_contains_def
        py_setitem_def split: if_splits)
  from no d have "map_of kvs (str ''positive_aspects'') = None" by (simp add: has_key_iff)
  with a d have "py_getitem d3 (str ''positive_aspects'') = Inr (JArray [])"
    by (auto simp: apply_defaults_def set_default_object py_getitem_def map_of_dict_set
        key_names_differ split: if_splits option.splits)
  then show ?thesis
    using getitem_setitem [OF s5, of "str ''positive_aspects''"]
      getitem_setitem [OF s0, of "str ''positive_aspects''"]
    by (simp add: key_names_differ)
qed

lemma is_object_simps [simp]:
  "is_object (JObject kvs)" "\<not> is_object JNull" "\<not> is_object (JBool b)"
  "\<not> is_object (JInt i)" "\<not> is_object (JFloat f)" "\<not> is_object (JString s)"
  "\<not> is_object (JArray xs)"
  by (simp_all add: is_object_def)

lemma is_object_iff: "is_object x \<longleftrightarrow> (\<exists>kvs. x = JObject kvs)"
  by (cases x) simp_all

lemma backfill_objects:
  "list_all is_object xs \<Longrightarrow> \<exists>ys. backfill i xs = Inr ys \<and> list_all is_object ys"
proof (induction xs arbitrary: i)
  case Nil
  then show ?case by simp
next
  case (Cons x xs)
  from Cons.prems obtain kvs where x: "x = JObject kvs"
    by (auto simp: is_object_iff)
  from Cons.prems Cons.IH [of "i + 1"] obtain ys where
    "backfill (i + 1) xs = Inr ys" "list_all is_object ys" by auto
  with x show ?case
    by (simp add: py_contains_def py_setitem_def)
qed

lemma count_where_total:
  "list_all is_object ys \<Longrightarrow> \<exists>n. count_where k s ys = Inr n"
proof (induction ys)
  case Nil
  then show ?case by simp
next
  case (Cons y ys)
  then obtain n where "count_where k s ys = Inr n" by auto
  with Cons.prems show ?case
    by (auto simp: py_get_def is_object_iff)
qed

lemma sum_where_total:
  "list_all is_object ys \<Longrightarrow> \<exists>n. sum_where k s (JArray ys) = Inr (JInt n)"
  using count_where_total [of ys k s] by (auto simp: sum_where_def py_iter_def)

lemma recompute_stats_total:
  assumes st: "map_of skvs (str ''stats'') = None
      \<or> (\<exists>st. map_of skvs (str ''stats'') = Some (JObject st))"
    and ys: "list_all is_object ys"
  shows "\<exists>sm2 st3. recompute_stats (JObject skvs) (JArray ys) = Inr sm2
    \<and> py_getitem sm2 (str ''stats'') = Inr st3
    \<and> has_key (str ''blocking'') st3 \<and> has_key (str ''warning'') st3
    \<and> has_key (str ''suggestion'') st3"
proof -
  from sum_where_total [OF ys] obtain n1 n2 n3 where
        "sum_where (str ''severity'') (str ''blocking'') (JArray ys) = Inr (JInt n1)"
    and "sum_where (str ''severity'') (str ''non-blocking'') (JArray ys) = Inr (JInt n2)"
    and "sum_where (str ''type'') (str ''suggestion'') (JArray ys) = Inr (JInt n3)"
    by metis
  with st show ?thesis
    by (auto simp: recompute_stats_def set_default_object py_getitem_def py_setitem_def
        map_of_dict_set has_key_iff key_names_differ)
qed

lemma default_summary_stats:
  "\<exists>skvs. default_summary = JObject skvs \<and> map_of skvs (str ''stats'') = Some (JObject [])"
  by (simp add: default_summary_def str_def)

lemma validate_total:
  assumes "well_shaped d"
  shows "\<exists>r. validate d = Inr r \<and> success_shaped r"
proof -
  from assms obtain kvs where d: "d = JObject kvs"
    by (cases d) (auto simp: well_shaped_def)
  define kvs1 where "kvs1 =
    (if map_of kvs (str ''summary'') = None then dict_set (str ''summary'') default_summary kvs
     else kvs)"
  define kvs2 where "kvs2 =
    (if map_of kvs1 (str ''issues'') = None then dict_set (str ''issues'') (JArray []) kvs1
     else kvs1)"
  define kvs3 where "kvs3 =
    (if map_of kvs2 (str ''positive_aspects'') = None
     then dict_set (str ''positive_aspects'') (JArray []) kvs2 else kvs2)"
  have "set_default d (str ''summary'') default_summary = Inr (JObject kvs1)"
    by (simp add: d set_default_object kvs1_def)
  moreover have "set_default (JObject kvs1) (str ''issues'') (JArray []) = Inr (JObject kvs2)"
    by (simp add: set_default_object kvs2_def)
  moreover have "set_default (JObject kvs2) (str ''positive_aspects'') (JArray [])
      = Inr (JObject kvs3)"
    by (simp add: set_default_object kvs3_def)
  ultimately have a: "apply_defaults d = Inr (JObject kvs3)"
    by (simp add: apply_defaults_def)
  have "\<exists>xs. map_of kvs3 (str ''issues'') = Some (JArray xs) \<and> list_all is_object xs"
    using assms
    by (auto simp: d well_shaped_def kvs1_def kvs2_def kvs3_def map_of_dict_set key_names_differ
        split: option.splits json.splits)
  then obtain xs where xs: "map_of kvs3 (str ''issues'') = Some (JArray xs)"
    and oxs: "list_all is_object xs" by blast
  from backfill_objects [OF oxs] obtain ys where ys: "backfill 1 xs = Inr ys"
    and oys: "list_all is_object ys" by blast
  have "\<exists>skvs. map_of kvs1 (str ''summary'') = Some (JObject skvs)
      \<and> (map_of skvs (str ''stats'') = None
          \<or> (\<exists>st. map_of skvs (str ''stats'') = Some (JObject st)))"
  proof (cases "map_of kvs (str ''summary'')")
    case None
    then show ?thesis
      using default_summary_stats by (auto simp: kvs1_def map_of_dict_set)
  next
    case (Some v)
    with assms show ?thesis
      by (auto simp: d well_shaped_def kvs1_def is_object_iff split: option.splits json.splits)
        (metis not_Some_eq)+
  qed
  moreover have "map_of kvs3 (str ''summary'') = map_of kvs1 (str ''summary'')"
    by (simp add: kvs2_def kvs3_def map_of_dict_set key_names_differ)
  ultimately have "\<exists>skvs. map_of kvs3 (str ''summary'') = Some (JObject skvs)
      \<and> (map_of skvs (str ''stats'') = None
          \<or> (\<exists>st. map_of skvs (str ''stats'') = Some (JObject st)))"
    by simp
  then obtain skvs where sm: "map_of kvs3 (str ''summary'') = Some (JObject skvs)"
    and st: "map_of skvs (str ''stats'') = None
          \<or> (\<exists>st. map_of skvs (str ''stats'') = Some (JObject st))"
    by blast
  from recompute_stats_total [OF st oys] obtain sm2 st3 where
        rs: "recompute_stats (JObject skvs) (JArray ys) = Inr sm2"
    and g: "py_getitem sm2 (str ''stats'') = Inr st3"
    and k: "has_key (str ''blocking'') st3" "has_key (str ''warning'') st3"
      "has_key (str ''suggestion'') st3"
    by blast
  have pa: "map_of kvs3 (str ''positive_aspects'') \<noteq> None"
    by (simp add: kvs3_def map_of_dict_set)
  let ?r = "JObject (dict_set (str ''summary'') sm2 (dict_set (str ''issues'') (JArray ys) kvs3))"
  have "validate d = Inr ?r"
    using a xs ys sm rs
    by (simp add: validate_def py_getitem_def ensure_ids_def py_iter_def py_setitem_def
        map_of_dict_set key_names_differ)
  moreover have "success_shaped ?r"
    using g k pa
    by (simp add: success_shaped_def has_key_iff py_getitem_def map_of_dict_set key_names_differ)
  ultimately show ?thesis by blast
qed


section \<open>Facts about the groups of the report\<close>

lemma get_eq_object: "is_object i \<Longrightarrow> get_eq k s i = Inr (has_field k s i)"
  by (auto simp: get_eq_def has_field_def py_get_def is_object_iff)

lemma get_ne_object: "is_object i \<Longrightarrow> get_ne k s i = Inr (\<not> has_field k s i)"
  by (auto simp: get_ne_def has_field_def py_get_def is_object_iff)

lemma select_where_filter:
  "\<forall>i\<in>set xs. p i = Inr (q i) \<Longrightarrow> select_where p xs = Inr (filter q xs)"
  by (induction xs) auto


section \<open>Facts about the supplied counters\<close>

lemma replace_value_alt:
  "replace_value k v kvs = (if map_of kvs k = None then kvs else dict_set k v kvs)"
  by (simp add: replace_value_def map_of_eq_None_iff)

lemma dict_set_replace_value_same:
  "dict_set k x (replace_value k v kvs) = dict_set k x kvs"
  by (simp add: replace_value_alt dict_set_overwrite)

lemma dict_set_replace_value_other:
  "k \<noteq> k' \<Longrightarrow> dict_set k x (replace_value k' v kvs) = replace_value k' v (dict_set k x kvs)"
  using dict_set_commute [of k k' kvs x v]
  by (auto simp: replace_value_alt map_of_dict_set)

text \<open>The counters that are stored at the end do not depend on the ones supplied.\<close>

lemma counters_overwritten:
  "dict_set (str ''suggestion'') z (dict_set (str ''warning'') y (dict_set (str ''blocking'') x
      (replace_value (str ''suggestion'') c (replace_value (str ''warning'') b
         (replace_value (str ''blocking'') a st)))))
   = dict_set (str ''suggestion'') z (dict_set (str ''warning'') y
       (dict_set (str ''blocking'') x st))"
  by (simp add: dict_set_replace_value_other dict_set_replace_value_same key_names_differ)

lemma recompute_stats_object:
  "map_of sm (str ''stats'') = Some (JObject st) \<Longrightarrow>
     recompute_stats (JObject sm) iss =
       bind (sum_where (str ''severity'') (str ''blocking'') iss) (\<lambda>x.
       bind (sum_where (str ''severity'') (str ''non-blocking'') iss) (\<lambda>y.
       bind (sum_where (str ''type'') (str ''suggestion'') iss) (\<lambda>z.
       Inr (JObject (dict_set (str ''stats'')
         (JObject (dict_set (str ''suggestion'') z (dict_set (str ''warning'') y
            (dict_set (str ''blocking'') x st)))) sm)))))"
  by (simp add: recompute_stats_def set_default_object py_getitem_def py_setitem_def)

lemma recompute_stats_with_counters:
  assumes "map_of sm (str ''stats'') = Some (JObject st)"
  shows "recompute_stats
      (JObject (dict_set (str ''stats'')
         (JObject (replace_value (str ''suggestion'') c (replace_value (str ''warning'') b
            (replace_value (str ''blocking'') a st)))) sm)) iss
    = recompute_stats (JObject sm) iss"
proof -
  have "map_of (dict_set (str ''stats'')
         (JObject (replace_value (str ''suggestion'') c (replace_value (str ''warning'') b
            (replace_value (str ''blocking'') a st)))) sm) (str ''stats'')
      = Some (JObject (replace_value (str ''suggestion'') c (replace_value (str ''warning'') b
            (replace_value (str ''blocking'') a st))))"
    by (simp add: map_of_dict_set)
  from recompute_stats_object [OF this] recompute_stats_object [OF assms]
  show ?thesis
    by (simp add: counters_overwritten dict_set_overwrite)
qed

lemma apply_defaults_summary_replaced:
  assumes "map_of kvs (str ''summary'') = Some v"
  shows "\<exists>kvs3. apply_defaults (JObject kvs) = Inr (JObject kvs3)
    \<and> apply_defaults (JObject (dict_set (str ''summary'') v' kvs))
        = Inr (JObject (dict_set (str ''summary'') v' kvs3))
    \<and> map_of kvs3 (str ''summary'') = Some v"
proof -
  define kvs2 where "kvs2 =
    (if map_of kvs (str ''issues'') = None then dict_set (str ''issues'') (JArray []) kvs
     else kvs)"
  define kvs3 where "kvs3 =
    (if map_of kvs2 (str ''positive_aspects'') = None
     then dict_set (str ''positive_aspects'') (JArray []) kvs2 else kvs2)"
  have s2: "map_of kvs2 (str ''summary'') = Some v"
    using assms by (simp add: kvs2_def map_of_dict_set key_names_differ)
  have s3: "map_of kvs3 (str ''summary'') = Some v"
    using s2 by (simp add: kvs3_def map_of_dict_set key_names_differ)
  have f1: "set_default (JObject kvs) (str ''summary'') default_summary = Inr (JObject kvs)"
    using assms by (simp add: set_default_object)
  have f2: "set_default (JObject kvs) (str ''issues'') (JArray []) = Inr (JObject kvs2)"
    by (simp add: set_default_object kvs2_def)
  have f3: "set_default (JObject kvs2) (str ''positive_aspects'') (JArray []) = Inr (JObject kvs3)"
    by (simp add: set_default_object kvs3_def)
  have e1: "set_default (JObject (dict_set (str ''summary'') v' kvs)) (str ''summary'')
      default_summary = Inr (JObject (dict_set (str ''summary'') v' kvs))"
    by (simp add: set_default_object map_of_dict_set)
  have e2: "set_default (JObject (dict_set (str ''summary'') v' kvs)) (str ''issues'') (JArray [])
      = Inr (JObject (dict_set (str ''summary'') v' kvs2))"
    using assms dict_set_commute [of "str ''issues''" "str ''summary''" kvs "JArray []" v']
    by (simp add: set_default_object kvs2_def map_of_dict_set key_names_differ)
  have e3: "set_default (JObject (dict_set (str ''summary'') v' kvs2)) (str ''positive_aspects'')
      (JArray []) = Inr (JObject (dict_set (str ''summary'') v' kvs3))"
    using s2 dict_set_commute [of "str ''positive_aspects''" "str ''summary''" kvs2 "JArray []" v']
    by (simp add: set_default_object kvs3_def map_of_dict_set key_names_differ)
  show ?thesis
    using f1 f2 f3 e1 e2 e3 s3 by (simp add: apply_defaults_def)
qed

lemma validate_with_counters: "validate (with_counters a b c d) = validate d"
proof (cases "\<exists>kvs sm st. d = JObject kvs \<and> map_of kvs (str ''summary'') = Some (JObject sm)
    \<and> map_of sm (str ''stats'') = Some (JObject st)")
  case False
  then have "with_counters a b c d = d"
    by (auto simp: with_counters_def split: json.splits option.splits)
  then show ?thesis by simp
next
  case True
  then obtain kvs sm st where d: "d = JObject kvs"
    and sm: "map_of kvs (str ''summary'') = Some (JObject sm)"
    and st: "map_of sm (str ''stats'') = Some (JObject st)"
    by blast
  define sm' where "sm' = JObject (dict_set (str ''stats'')
         (JObject (replace_value (str ''suggestion'') c (replace_value (str ''warning'') b
            (replace_value (str ''blocking'') a st)))) sm)"
  have d': "with_counters a b c d = JObject (dict_set (str ''summary'') sm' kvs)"
    using d sm st by (simp add: with_counters_def sm'_def)
  from apply_defaults_summary_replaced [OF sm, of sm'] obtain kvs3 where
        a1: "apply_defaults (JObject kvs) = Inr (JObject kvs3)"
    and a2: "apply_defaults (JObject (dict_set (str ''summary'') sm' kvs))
        = Inr (JObject (dict_set (str ''summary'') sm' kvs3))"
    and s3: "map_of kvs3 (str ''summary'') = Some (JObject sm)"
    by blast
  have rs: "recompute_stats sm' iss = recompute_stats (JObject sm) iss" for iss
    unfolding sm'_def by (rule recompute_stats_with_counters [OF st])
  have tail: "bind (py_setitem (JObject (dict_set (str ''summary'') sm' kvs3)) (str ''issues'') iss)
        (\<lambda>data. bind (py_getitem data (str ''summary'')) (\<lambda>summary.
           bind (recompute_stats summary iss) (\<lambda>summary.
           py_setitem data (str ''summary'') summary)))
      = bind (py_setitem (JObject kvs3) (str ''issues'') iss)
        (\<lambda>data. bind (py_getitem data (str ''summary'')) (\<lambda>summary.
           bind (recompute_stats summary iss) (\<lambda>summary.
           py_setitem data (str ''summary'') summary)))" for iss
    using s3
    by (simp add: py_setitem_def py_getitem_def map_of_dict_set key_names_differ rs
        dict_set_commute [of "str ''issues''" "str ''summary''"] dict_set_overwrite
        )
  have g: "py_getitem (JObject (dict_set (str ''summary'') sm' kvs3)) (str ''issues'')
      = py_getitem (JObject kvs3) (str ''issues'')"
    by (simp add: py_getitem_def map_of_dict_set key_names_differ)
  show ?thesis
    by (simp only: d d' [unfolded d] validate_def a1 a2 bind_Inr g tail)
qed


section \<open>Facts about the file loop\<close>

lemma read_files_nothing:
  "\<forall>f\<in>set files. contributes_nothing e f \<Longrightarrow>
     snd (read_files e files code_parts valid_files) = valid_files"
  by (induction files arbitrary: code_parts)
    (auto simp: contributes_nothing_def split: sum.splits)


section \<open>Facts about fences\<close>

lemma startswith_append: "startswith s p \<Longrightarrow> startswith (s @ r) p"
  by (induction s p rule: startswith.induct) auto

lemma startswith_same [simp]: "startswith (p @ r) p"
  by (induction p) auto

lemma str_contains_first: "str_contains s (p # ps) \<Longrightarrow> p \<in> set s"
  by (induction s) (auto dest: startswith_first)

lemma str_contains_suffix: "str_contains b p \<Longrightarrow> str_contains (a @ b) p"
  by (induction a) auto

lemma str_contains_empty [simp]: "str_contains s []"
  by (induction s) auto

lemma str_contains_prefix: "str_contains a p \<Longrightarrow> str_contains (a @ b) p"
  by (induction a) (auto dest: startswith_append [where r = b])

lemma split_fence_None: "split_fence s = None \<longleftrightarrow> \<not> str_contains s fence"
  by (induction s) (auto simp: fence_def split: option.splits)

text \<open>A text without a fence, and the fence behind it.\<close>

lemma no_fence_start:
  assumes "\<not> str_contains (c # v) fence" and "last (c # v) \<noteq> 96"
  shows "\<not> startswith (c # v @ fence @ rest) fence"
proof (cases v)
  case Nil
  with assms show ?thesis by (simp add: fence_def)
next
  case (Cons a v')
  show ?thesis
  proof (cases v')
    case Nil
    with Cons assms show ?thesis by (auto simp: fence_def)
  next
    case (Cons b v'')
    with \<open>v = a # v'\<close> assms show ?thesis by (auto simp: fence_def)
  qed
qed

lemma split_fence_at_end:
  "\<not> str_contains v fence \<Longrightarrow> v = [] \<or> last v \<noteq> 96 \<Longrightarrow>
     split_fence (v @ fence @ rest) = Some (v, rest)"
proof (induction v)
  case Nil
  then show ?case by (simp add: fence_def)
next
  case (Cons c v)
  from Cons.prems have n: "\<not> startswith ((c # v) @ fence @ rest) fence"
    using no_fence_start [of c v rest] by simp
  from Cons.prems have "\<not> str_contains v fence" "v = [] \<or> last v \<noteq> 96"
    by (auto split: if_splits)
  from Cons.IH [OF this] n show ?case by simp
qed

lemma no_fence_spaces:
  assumes "\<not> str_contains s fence" and "\<forall>c\<in>set w. c \<noteq> 96"
  shows "\<not> str_contains (s @ w) fence"
  using assms
proof (induction s)
  case Nil
  then show ?case using str_contains_first [of w 96 "[96, 96]"] by (auto simp: fence_def)
next
  case (Cons c s)
  have "\<not> startswith (c # s @ w) fence"
  proof (cases s)
    case Nil
    with Cons.prems show ?thesis by (cases w; cases "tl w") (auto simp: fence_def)
  next
    case (Cons a s')
    show ?thesis
    proof (cases s')
      case Nil
      with Cons \<open>\<forall>c\<in>set w. c \<noteq> 96\<close> show ?thesis by (cases w) (auto simp: fence_def)
    next
      case (Cons b s'')
      with \<open>s = a # s'\<close> \<open>\<not> str_contains (c # s) fence\<close> show ?thesis
        by (auto simp: fence_def)
    qed
  qed
  with Cons show ?case by simp
qed


section \<open>Facts about stripping\<close>

lemma is_space_not_backquote: "is_space c \<Longrightarrow> c \<noteq> 96"
  by (auto simp: is_space_def)

lemma str_rstrip_spaces:
  "s \<noteq> [] \<Longrightarrow> \<not> is_space (last s) \<Longrightarrow> list_all is_space w \<Longrightarrow> str_rstrip (s @ w) = s"
  by (cases s rule: rev_cases)
    (auto simp: str_rstrip_def dropWhile_append list_all_iff dropWhile_eq_Nil_conv)

lemma dropWhile_spaces:
  "list_all is_space w \<Longrightarrow> s \<noteq> [] \<Longrightarrow> \<not> is_space (hd s) \<Longrightarrow>
     dropWhile is_space (w @ s @ r) = s @ r"
  by (cases s) (auto simp: dropWhile_append list_all_iff dropWhile_eq_Nil_conv)

text \<open>A text is its stripped form between two runs of white space.\<close>

lemma strip_decompose:
  "\<exists>l r. t = l @ str_strip t @ r \<and> list_all is_space l \<and> list_all is_space r"
proof -
  let ?l = "takeWhile is_space t"
  let ?m = "dropWhile is_space t"
  let ?r = "rev (takeWhile is_space (rev ?m))"
  have "rev ?m = takeWhile is_space (rev ?m) @ dropWhile is_space (rev ?m)" by simp
  then have "?m = rev (dropWhile is_space (rev ?m)) @ ?r"
    by (metis rev_append rev_rev_ident)
  then have "t = ?l @ str_strip t @ ?r"
    by (metis str_strip_def str_rstrip_def takeWhile_dropWhile_id)
  moreover have "list_all is_space ?l"
    by (simp add: list_all_iff) (meson set_takeWhileD)
  moreover have "list_all is_space ?r"
    by (simp add: list_all_iff) (meson set_takeWhileD)
  ultimately show ?thesis by blast
qed

lemma strip_ends:
  assumes "str_strip t \<noteq> []"
  shows "\<not> is_space (hd (str_strip t))" and "\<not> is_space (last (str_strip t))"
proof -
  let ?m = "dropWhile is_space t"
  from assms have m: "?m \<noteq> []"
    by (cases "dropWhile is_space t") (simp_all add: str_strip_def str_rstrip_def)
  have d: "dropWhile is_space (rev ?m) \<noteq> []"
    using assms by (simp add: str_strip_def str_rstrip_def)
  have "last (str_strip t) = hd (dropWhile is_space (rev ?m))"
    using d by (simp add: str_strip_def str_rstrip_def last_rev)
  with d show "\<not> is_space (last (str_strip t))"
    by (simp add: hd_dropWhile)
  have "\<not> is_space (hd ?m)" using m by (simp add: hd_dropWhile)
  moreover have "hd (str_strip t) = hd ?m"
  proof -
    obtain c cs where c: "?m = c # cs" using m by (cases ?m) auto
    with \<open>\<not> is_space (hd ?m)\<close> have "\<not> is_space c" by simp
    have "rev (dropWhile is_space (rev (c # cs))) \<noteq> []"
      using d c by simp
    moreover have "\<exists>r. c # cs = rev (dropWhile is_space (rev (c # cs))) @ r"
      by (metis rev_append rev_rev_ident takeWhile_dropWhile_id)
    ultimately show ?thesis
      unfolding str_strip_def str_rstrip_def c
      by (metis append_eq_Cons_conv list.sel(1))
  qed
  ultimately show "\<not> is_space (hd (str_strip t))" by simp
qed


section \<open>Facts about the decoder\<close>

lemma step_unreadable: "unreadable tok \<Longrightarrow> \<exists>e. step m st pos tok = Inl e"
  by (cases tok; cases m; cases st)
    (auto simp: unreadable_def step_def begin_value_def begin_key_def split: frame.splits)

lemma parse_unreadable:
  "\<exists>x\<in>set toks. unreadable (snd x) \<Longrightarrow> \<exists>e. parse len m st toks = Inl e"
proof (induction toks arbitrary: m st)
  case Nil
  then show ?case by simp
next
  case (Cons x toks)
  obtain pos tok where x: "x = (pos, tok)" by (cases x)
  show ?case
  proof (cases "step m st pos tok")
    case (Inl e)
    with x show ?thesis by simp
  next
    case (Inr next_state)
    with step_unreadable [of tok m st pos] have "\<not> unreadable tok" by auto
    with Cons.prems x have "\<exists>x\<in>set toks. unreadable (snd x)" by auto
    from Cons.IH [OF this] Inr x show ?thesis by (cases next_state) simp
  qed
qed

lemma json_loads_first:
  assumes "json_loads s = Inr d"
  shows "s \<noteq> [] \<and> hd s \<noteq> 106"
proof -
  have "json_loads [] \<noteq> Inr d"
    by (simp add: json_loads_def finish_def)
  moreover have "json_loads (106 # cs) \<noteq> Inr d" for cs
    by (simp add: json_loads_def is_json_ws_def is_punct_def scan_atom_def match_number_def
        int_part_def str_def step_def begin_value_def)
  ultimately show ?thesis using assms by (cases s) auto
qed

text \<open>The parts of a number are read off the head of the text and hold no backquote.\<close>

lemma takeWhile_digit_no_backquote: "96 \<notin> set (takeWhile is_digit r)"
  by (induction r) (auto simp: is_digit_def)

lemma int_part_prefix: "\<exists>r. s = int_part s @ r" and int_part_chars: "96 \<notin> set (int_part s)"
  by (cases s; auto simp: int_part_def takeWhile_digit_no_backquote
      intro: exI [of _ "dropWhile is_digit (tl s)"])+

lemma is_digit_not_backquote: "is_digit d \<Longrightarrow> d \<noteq> 96"
  by (simp add: is_digit_def)

lemma frac_part_prefix: "\<exists>r. s = frac_part s @ r"
  by (auto simp: frac_part_def split: list.splits
      intro: exI [of _ "dropWhile is_digit (tl (tl s))"])

lemma frac_part_chars: "96 \<notin> set (frac_part s)"
  by (auto simp: frac_part_def takeWhile_digit_no_backquote split: list.splits
      dest: is_digit_not_backquote)

lemma exp_part_prefix: "\<exists>r. s = exp_part s @ r"
proof (cases s)
  case Nil
  then show ?thesis by (simp add: exp_part_def)
next
  case (Cons e r)
  define sign where "sign = (case r of [] \<Rightarrow> [] | g # _ \<Rightarrow> if g = 43 \<or> g = 45 then [g] else [])"
  define digits where "digits = takeWhile is_digit (drop (length sign) r)"
  have e: "exp_part (e # r) =
      (if e = 101 \<or> e = 69 then (if digits = [] then [] else e # sign @ digits) else [])"
    by (simp add: exp_part_def sign_def digits_def Let_def)
  have "r = sign @ drop (length sign) r"
    by (cases r) (auto simp: sign_def)
  then have "r = sign @ digits @ dropWhile is_digit (drop (length sign) r)"
    by (simp add: digits_def)
  then have "e # r = (e # sign @ digits) @ dropWhile is_digit (drop (length sign) r)"
    by simp
  with e Cons show ?thesis by (metis append_Nil)
qed

lemma exp_part_chars: "96 \<notin> set (exp_part s)"
  by (auto simp: exp_part_def Let_def takeWhile_digit_no_backquote split: list.splits)

text \<open>What a number takes is a non-empty head of the text without a backquote.\<close>

lemma match_number_taken:
  assumes "match_number s = Some (v, n)"
  shows "\<exists>taken r. s = taken @ r \<and> taken \<noteq> [] \<and> n = length taken \<and> 96 \<notin> set taken"
proof -
  define sign where "sign = (if startswith s [45] then [45] else [] :: pystr)"
  define whole where "whole = int_part (drop (length sign) s)"
  define frac where "frac = frac_part (drop (length (sign @ whole)) s)"
  define ex where "ex = exp_part (drop (length (sign @ whole @ frac)) s)"
  have m: "match_number s =
      (if whole = [] then None
       else if frac = [] \<and> ex = [] then
         Some (JInt (if sign = [] then int (nat_of_digits whole) else - int (nat_of_digits whole)),
               length (sign @ whole))
       else Some (JFloat (sign @ whole @ frac @ ex), length (sign @ whole @ frac @ ex)))"
    unfolding match_number_def Let_def ex_def frac_def whole_def sign_def by (rule refl)
  have s1: "s = sign @ drop (length sign) s"
    by (cases s) (auto simp: sign_def)
  obtain r1 where r1: "drop (length sign) s = whole @ r1"
    using int_part_prefix [of "drop (length sign) s"] by (auto simp: whole_def)
  with s1 have s2: "s = sign @ whole @ r1" by simp
  then have "drop (length (sign @ whole)) s = r1"
    by (metis append.assoc append_eq_conv_conj)
  then obtain r2 where r2: "r1 = frac @ r2"
    using frac_part_prefix [of r1] by (auto simp: frac_def)
  with s2 have s3: "s = sign @ whole @ frac @ r2" by simp
  then have "drop (length (sign @ whole @ frac)) s = r2"
    by (metis append.assoc append_eq_conv_conj)
  then obtain r3 where r3: "r2 = ex @ r3"
    using exp_part_prefix [of r2] by (auto simp: ex_def)
  with s3 have s4: "s = (sign @ whole @ frac @ ex) @ r3" by simp
  have chars: "96 \<notin> set (sign @ whole @ frac @ ex)"
    using int_part_chars frac_part_chars exp_part_chars
    by (auto simp: sign_def whole_def frac_def ex_def)
  from assms m have w: "whole \<noteq> []" by (auto split: if_splits)
  show ?thesis
  proof (cases "frac = [] \<and> ex = []")
    case True
    with assms m w have "n = length (sign @ whole)" by auto
    with True s4 chars w show ?thesis
      by (intro exI [of _ "sign @ whole"] exI [of _ r3]) auto
  next
    case False
    with assms m w have "n = length (sign @ whole @ frac @ ex)" by auto
    with s4 chars w show ?thesis
      by (intro exI [of _ "sign @ whole @ frac @ ex"] exI [of _ r3]) auto
  qed
qed

lemma startswith_taken: "startswith s p \<Longrightarrow> \<exists>r. s = p @ r"
  by (induction s p rule: startswith.induct) auto

lemma scan_atom_taken:
  assumes "scan_atom s = Some (v, n)"
  shows "\<exists>taken r. s = taken @ r \<and> taken \<noteq> [] \<and> n = length taken \<and> 96 \<notin> set taken"
proof -
  have lit: "\<exists>taken r. s = taken @ r \<and> taken \<noteq> [] \<and> length p = length taken \<and> 96 \<notin> set taken"
    if "startswith s p" "p \<noteq> []" "96 \<notin> set p" for p
    using startswith_taken [OF that(1)] that(2,3) by auto
  from assms show ?thesis
    unfolding scan_atom_def
    by (auto split: if_splits dest!: lit match_number_taken simp: str_def)
qed

text \<open>A text that ends in a backquote holds a token that cannot be read.\<close>

lemma atom_before_backquote:
  assumes "scan_atom (x @ [96]) = Some (v, n)"
  shows "0 < n \<and> n \<le> length x"
proof -
  from scan_atom_taken [OF assms] obtain taken r where
    t: "x @ [96] = taken @ r" "taken \<noteq> []" "n = length taken" "96 \<notin> set taken"
    by blast
  have "r \<noteq> []"
  proof
    assume "r = []"
    with t have "last taken = 96" by (metis append_Nil2 last_snoc)
    with t show False by (metis last_in_set)
  qed
  with t have "length taken \<le> length x"
    by (metis append_butlast_last_id butlast_append butlast_snoc length_append le_add1)
  with t show ?thesis by simp
qed

lemma string_before_backquote:
  "scanstring b p acc (x @ [96]) = Inr (s, stop) \<Longrightarrow> p < stop \<and> stop - p \<le> length x"
proof (induction "length x" arbitrary: x p acc rule: less_induct)
  case less
  note prem = less.prems
  show ?case
  proof (cases x)
    case Nil
    with prem show ?thesis by simp
  next
    case (Cons c x')
    show ?thesis
    proof (cases "c = 92")
      case False
      show ?thesis
      proof (cases "c = 34")
        case True
        with prem Cons show ?thesis by auto
      next
        case c34: False
        with False prem Cons have "scanstring b (p + 1) (acc @ [c]) (x' @ [96]) = Inr (s, stop)"
          by (simp split: if_splits)
        from less.hyps [OF _ this] Cons show ?thesis by auto
      qed
    next
      case True
      show ?thesis
      proof (cases x')
        case Nil
        with True prem Cons show ?thesis by (simp add: escape_char_def)
      next
        case x': (Cons e x'')
        show ?thesis
        proof (cases "e = 117")
          case False
          with True prem Cons x' obtain ch where
            "scanstring b (p + 2) (acc @ [ch]) (x'' @ [96]) = Inr (s, stop)"
            by (auto split: option.splits)
          from less.hyps [OF _ this] Cons x' show ?thesis by auto
        next
          case u: True
          from True u prem Cons x' have len: "4 \<le> length x''"
            by (auto split: if_splits)
          then have d4: "drop 4 (x'' @ [96]) = drop 4 x'' @ [96]" by simp
          from True u prem Cons x' len consider
              (single) c1 where "scanstring b (p + 6) (acc @ [c1]) (drop 4 (x'' @ [96])) = Inr (s, stop)"
            | (pair) c12 where "6 < length (drop 4 (x'' @ [96]))"
                "scanstring b (p + 12) (acc @ [c12]) (drop 10 (x'' @ [96])) = Inr (s, stop)"
            by (auto split: if_splits option.splits)
          then show ?thesis
          proof cases
            case single
            then have "scanstring b (p + 6) (acc @ [c1]) (drop 4 x'' @ [96]) = Inr (s, stop)"
              using d4 by simp
            moreover have "length (drop 4 x'') < length x" using Cons x' by simp
            ultimately have "p + 6 < stop \<and> stop - (p + 6) \<le> length (drop 4 x'')"
              by (intro less.hyps)
            with Cons x' len show ?thesis by auto
          next
            case pair
            from pair(1) have len10: "10 \<le> length x''" by simp
            then have "drop 10 (x'' @ [96]) = drop 10 x'' @ [96]" by simp
            with pair(2) have
              "scanstring b (p + 12) (acc @ [c12]) (drop 10 x'' @ [96]) = Inr (s, stop)"
              by simp
            moreover have "length (drop 10 x'') < length x" using Cons x' by simp
            ultimately have "p + 12 < stop \<and> stop - (p + 12) \<le> length (drop 10 x'')"
              by (intro less.hyps)
            with Cons x' len10 show ?thesis by auto
          qed
        qed
      qed
    qed
  qed
qed

lemma lex_backquote_last:
  "\<exists>tok\<in>set (lex pos (x @ [96])). unreadable (snd tok)"
proof (induction "length x" arbitrary: x pos rule: less_induct)
  case less
  show ?case
  proof (cases x)
    case Nil
    then show ?thesis
      by (simp add: is_json_ws_def is_punct_def scan_atom_def match_number_def int_part_def
          str_def unreadable_def)
  next
    case (Cons c x')
    consider (skip) "is_json_ws c" | (punct) "\<not> is_json_ws c" "is_punct c"
      | (quote) "\<not> is_json_ws c" "\<not> is_punct c" "c = 34"
      | (atom) "\<not> is_json_ws c" "\<not> is_punct c" "c \<noteq> 34"
      by blast
    then show ?thesis
    proof cases
      case skip
      with less.hyps [of x' "pos + 1"] Cons show ?thesis by simp
    next
      case punct
      with less.hyps [of x' "pos + 1"] Cons show ?thesis by simp
    next
      case quote
      show ?thesis
      proof (cases "scanstring pos (pos + 1) [] (x' @ [96])")
        case (Inl err)
        with quote Cons show ?thesis by (cases err) (simp add: unreadable_def)
      next
        case (Inr found)
        obtain s stop where f: "found = (s, stop)" by (cases found)
        from string_before_backquote [OF Inr [unfolded f]]
        have "pos + 1 < stop" "stop - (pos + 1) \<le> length x'" by auto
        then have "drop (stop - (pos + 1)) (x' @ [96]) = drop (stop - (pos + 1)) x' @ [96]"
          by simp
        with less.hyps [of "drop (stop - (pos + 1)) x'" stop] quote Cons Inr f
        show ?thesis by simp
      qed
    next
      case atom
      show ?thesis
      proof (cases "scan_atom (x @ [96])")
        case None
        with atom Cons show ?thesis by (simp add: unreadable_def)
      next
        case (Some found)
        obtain v n where f: "found = (v, n)" by (cases found)
        from atom_before_backquote [OF Some [unfolded f]]
        have n: "0 < n" "n \<le> length x" by auto
        with Cons have "drop (n - 1) (x' @ [96]) = drop (n - 1) x' @ [96]" by simp
        with less.hyps [of "drop (n - 1) x'" "pos + n"] atom Cons Some f n
        show ?thesis by simp
      qed
    qed
  qed
qed

lemma json_loads_last:
  assumes "json_loads s = Inr d"
  shows "s \<noteq> [] \<and> last s \<noteq> 96"
proof -
  have "json_loads (x @ [96]) \<noteq> Inr d" for x
    using parse_unreadable [OF lex_backquote_last, of "length (x @ [96])" Value "[]" 0 x]
    by (auto simp: json_loads_def split: if_splits)
  with assms json_loads_first [OF assms] show ?thesis
    by (metis append_butlast_last_id)
qed


section \<open>Facts about the fence search\<close>

lemma str_strip_fixed:
  "s \<noteq> [] \<Longrightarrow> \<not> is_space (hd s) \<Longrightarrow> \<not> is_space (last s) \<Longrightarrow> str_strip s = s"
  using str_rstrip_spaces [of s "[]"] by (cases s) (simp_all add: str_strip_def)

lemma not_tagged: "x \<noteq> [] \<Longrightarrow> hd x \<noteq> 106 \<Longrightarrow> \<not> startswith x (str ''json'')"
  by (cases x) (simp_all add: str_def)

lemma pre_decode_plain: "\<not> str_contains t fence \<Longrightarrow> pre_decode t = str_strip t"
  by (simp add: pre_decode_def fence_search_def split_fence_None [symmetric])

lemma pre_decode_wrapped:
  assumes s: "s \<noteq> []" "\<not> is_space (hd s)" "\<not> is_space (last s)"
    and j: "hd s \<noteq> 106" and q: "last s \<noteq> 96"
    and nofence: "\<not> str_contains s fence"
    and tag: "tag = [] \<or> tag = str ''json''"
    and ws: "list_all is_space w1" "list_all is_space w2"
  shows "pre_decode (fence @ tag @ w1 @ s @ w2 @ fence) = s"
proof -
  let ?x = "tag @ w1 @ s @ w2 @ fence"
  have 1: "split_fence (fence @ ?x) = Some ([], ?x)"
    by (simp add: fence_def)
  have "is_space c \<Longrightarrow> c \<noteq> 106" for c
    by (auto simp: is_space_def)
  then have "hd (w1 @ s @ w2 @ fence) \<noteq> 106"
    using s(1) j ws(1) by (cases w1) auto
  moreover have "w1 @ s @ w2 @ fence \<noteq> []"
    using s(1) by simp
  ultimately have "\<not> startswith (w1 @ s @ w2 @ fence) (str ''json'')"
    by (intro not_tagged)
  moreover have "drop 4 (str ''json'' @ w1 @ s @ w2 @ fence) = w1 @ s @ w2 @ fence"
    by (simp add: str_def)
  ultimately have 2: "(if startswith ?x (str ''json'') then drop 4 ?x else ?x)
      = w1 @ s @ w2 @ fence"
    using tag by auto
  have 3: "dropWhile is_space (w1 @ s @ w2 @ fence) = s @ w2 @ fence"
    using dropWhile_spaces [OF ws(1) s(1,2)] by simp
  have "\<forall>c\<in>set w2. c \<noteq> 96"
    using ws(2) by (auto simp: list_all_iff dest: is_space_not_backquote)
  with nofence have "\<not> str_contains (s @ w2) fence"
    by (rule no_fence_spaces)
  moreover have "last (s @ w2) \<noteq> 96"
    using q s(1) \<open>\<forall>c\<in>set w2. c \<noteq> 96\<close> by (cases w2 rule: rev_cases) auto
  ultimately have "split_fence ((s @ w2) @ fence @ []) = Some (s @ w2, [])"
    by (intro split_fence_at_end) auto
  then have 4: "split_fence (s @ w2 @ fence) = Some (s @ w2, [])" by simp
  have 5: "str_rstrip (s @ w2) = s"
    using s ws(2) by (intro str_rstrip_spaces)
  have "fence_search (fence @ ?x) = Some s"
    unfolding fence_search_def 1 by (simp add: 2 3 4 5 Let_def)
  with s show ?thesis
    by (simp add: pre_decode_def str_strip_fixed)
qed


section \<open>The recomputed statistics\<close>

text \<open>
  Claim C1. Whenever the reply decodes and \<open>parse_json_response\<close> returns, the result
  holds a summary with stats and issues such that \<open>stats.blocking\<close> is the number of
  issues whose \<open>severity\<close> is \<open>blocking\<close>, \<open>stats.warning\<close> the number of issues whose
  \<open>severity\<close> is \<open>non-blocking\<close>, and \<open>stats.suggestion\<close> the number of issues whose
  \<open>type\<close> is \<open>suggestion\<close>.
\<close>

theorem C1_stats_recomputed:
  assumes "json_loads (pre_decode t) = Inr d" and "parse_json_response t = Inr r"
  shows "\<exists>summary stats issues items.
      py_getitem r (str ''summary'') = Inr summary
    \<and> py_getitem summary (str ''stats'') = Inr stats
    \<and> py_getitem r (str ''issues'') = Inr issues
    \<and> py_iter issues = Inr items
    \<and> py_getitem stats (str ''blocking'')
        = Inr (JInt (int (length (filter (has_field (str ''severity'') (str ''blocking'')) items))))
    \<and> py_getitem stats (str ''warning'')
        = Inr (JInt (int (length (filter (has_field (str ''severity'') (str ''non-blocking'')) items))))
    \<and> py_getitem stats (str ''suggestion'')
        = Inr (JInt (int (length (filter (has_field (str ''type'') (str ''suggestion'')) items))))"
  using assms by (intro validate_stats) (simp add: parse_after_decode)

theorem C1_stats_recomputed_witness:
  "\<exists>d r. json_loads (pre_decode reply_three_issues) = Inr d
     \<and> parse_json_response reply_three_issues = Inr r
     \<and> (\<exists>summary stats issues items.
          py_getitem r (str ''summary'') = Inr summary
        \<and> py_getitem summary (str ''stats'') = Inr stats
        \<and> py_getitem r (str ''issues'') = Inr issues
        \<and> py_iter issues = Inr items
        \<and> py_getitem stats (str ''blocking'')
            = Inr (JInt (int (length (filter (has_field (str ''severity'') (str ''blocking'')) items))))
        \<and> py_getitem stats (str ''warning'')
            = Inr (JInt (int (length (filter (has_field (str ''severity'') (str ''non-blocking'')) items))))
        \<and> py_getitem stats (str ''suggestion'')
            = Inr (JInt (int (length (filter (has_field (str ''type'') (str ''suggestion'')) items)))))"
proof -
  have "\<exists>d. json_loads (pre_decode reply_three_issues) = Inr d"
    by (simp add: reply_three_issues_def eval_defs)
  moreover have "\<exists>r. parse_json_response reply_three_issues = Inr r"
    by (simp add: reply_three_issues_def eval_defs)
  ultimately obtain d r where d: "json_loads (pre_decode reply_three_issues) = Inr d"
    and r: "parse_json_response reply_three_issues = Inr r"
    by blast
  from C1_stats_recomputed [OF d r] d r show ?thesis by blast
qed


section \<open>What the normalizer returns and raises\<close>





section \<open>The groups of the interactive report, settled\<close>

text \<open>
  Claim C3, as stated, fails: an issue with type \<open>suggestion\<close> and severity \<open>blocking\<close>
  is listed in the blocking group as well as in the suggestion group.
\<close>

theorem C3_counterexample:
  "blocking_issues (JArray [blocking_suggestion]) = Inr [blocking_suggestion]
   \<and> suggestion_issues (JArray [blocking_suggestion]) = Inr [blocking_suggestion]"
  by (simp add: blocking_issues_def suggestion_issues_def blocking_suggestion_def py_iter_def
      get_eq_def py_get_def str_def)

text \<open>
  Claim C3, amended. For a list of issues (objects), the three groups of the interactive
  report are filters of the list, each in input order: the blocking group holds the
  issues of severity \<open>blocking\<close>, the warning group those of severity \<open>non-blocking\<close>
  whose type is not \<open>suggestion\<close>, the suggestion group those of type \<open>suggestion\<close>. The
  warning group shares no issue with the other two. The blocking and the suggestion
  group share exactly the issues of severity \<open>blocking\<close> and type \<open>suggestion\<close>, and an
  issue that is neither blocking, nor non-blocking, nor a suggestion is in no group.
\<close>

theorem C3_groups:
  assumes "list_all is_object xs"
  shows "\<exists>b w s.
      blocking_issues (JArray xs) = Inr b \<and> warning_issues (JArray xs) = Inr w
    \<and> suggestion_issues (JArray xs) = Inr s
    \<and> b = filter (has_field (str ''severity'') (str ''blocking'')) xs
    \<and> w = filter (\<lambda>i. has_field (str ''severity'') (str ''non-blocking'') i
                     \<and> \<not> has_field (str ''type'') (str ''suggestion'') i) xs
    \<and> s = filter (has_field (str ''type'') (str ''suggestion'')) xs
    \<and> set b \<inter> set w = {} \<and> set w \<inter> set s = {}
    \<and> set b \<inter> set s = {i \<in> set xs. has_field (str ''severity'') (str ''blocking'') i
                                  \<and> has_field (str ''type'') (str ''suggestion'') i}
    \<and> set xs - (set b \<union> set w \<union> set s) =
        {i \<in> set xs. \<not> has_field (str ''severity'') (str ''blocking'') i
                    \<and> \<not> has_field (str ''severity'') (str ''non-blocking'') i
                    \<and> \<not> has_field (str ''type'') (str ''suggestion'') i}"
proof -
  from assms have o: "\<forall>i\<in>set xs. is_object i" by (simp add: list_all_iff)
  have b: "blocking_issues (JArray xs) =
      Inr (filter (has_field (str ''severity'') (str ''blocking'')) xs)"
    using o by (simp add: blocking_issues_def py_iter_def select_where_filter get_eq_object)
  have s: "suggestion_issues (JArray xs) =
      Inr (filter (has_field (str ''type'') (str ''suggestion'')) xs)"
    using o by (simp add: suggestion_issues_def py_iter_def select_where_filter get_eq_object)
  have w: "warning_issues (JArray xs) =
      Inr (filter (\<lambda>i. has_field (str ''severity'') (str ''non-blocking'') i
                     \<and> \<not> has_field (str ''type'') (str ''suggestion'') i) xs)"
    unfolding warning_issues_def py_iter_def
    using o by (auto intro!: select_where_filter simp: get_eq_object get_ne_object)
  have differ: "\<not> (has_field (str ''severity'') (str ''blocking'') i
      \<and> has_field (str ''severity'') (str ''non-blocking'') i)" for i
    by (auto simp: has_field_def str_def)
  let ?b = "filter (has_field (str ''severity'') (str ''blocking'')) xs"
  let ?w = "filter (\<lambda>i. has_field (str ''severity'') (str ''non-blocking'') i
                     \<and> \<not> has_field (str ''type'') (str ''suggestion'') i) xs"
  let ?s = "filter (has_field (str ''type'') (str ''suggestion'')) xs"
  have 1: "set ?b \<inter> set ?w = {}" using differ by auto
  have 2: "set ?w \<inter> set ?s = {}" by auto
  have 3: "set ?b \<inter> set ?s = {i \<in> set xs. has_field (str ''severity'') (str ''blocking'') i
                                  \<and> has_field (str ''type'') (str ''suggestion'') i}"
    by auto
  have 4: "set xs - (set ?b \<union> set ?w \<union> set ?s) =
        {i \<in> set xs. \<not> has_field (str ''severity'') (str ''blocking'') i
                    \<and> \<not> has_field (str ''severity'') (str ''non-blocking'') i
                    \<and> \<not> has_field (str ''type'') (str ''suggestion'') i}"
    by auto
  from b w s 1 2 3 4 show ?thesis by blast
qed

theorem C3_groups_witness:
  "list_all is_object [blocking_suggestion]
   \<and> (\<exists>b w s.
      blocking_issues (JArray [blocking_suggestion]) = Inr b
    \<and> warning_issues (JArray [blocking_suggestion]) = Inr w
    \<and> suggestion_issues (JArray [blocking_suggestion]) = Inr s
    \<and> set b \<inter> set w = {} \<and> set w \<inter> set s = {} \<and> set b \<inter> set s = {blocking_suggestion})"
proof -
  have o: "list_all is_object [blocking_suggestion]"
    by (simp add: blocking_suggestion_def)
  have "has_field (str ''severity'') (str ''blocking'') blocking_suggestion"
    "has_field (str ''type'') (str ''suggestion'') blocking_suggestion"
    by (simp_all add: has_field_def blocking_suggestion_def py_get_def str_def)
  then have "{i \<in> set [blocking_suggestion]. has_field (str ''severity'') (str ''blocking'') i
      \<and> has_field (str ''type'') (str ''suggestion'') i} = {blocking_suggestion}"
    by auto
  with C3_groups [OF o] o show ?thesis by (elim exE conjE) (intro conjI exI, simp_all)
qed


section \<open>The estimator's thresholds\<close>

text \<open>
  Claim C4, as the specification states it, fails: a text of 1000 newlines from one
  file with no keyword, async or class match scores min(5, 2) + 0.5 = 2.5 and is rated
  \<open>medium\<close>, not \<open>high\<close>; and a text of 250 newlines, which is under 300 lines, scores
  1.25 + 0.5 = 1.75 and is rated \<open>medium\<close>, not \<open>minimal\<close>.
\<close>

theorem C4_counterexample:
  "calculate_thinking_level [str ''a.py''] (replicate 1000 10) = str ''medium''
   \<and> calculate_thinking_level [str ''a.py''] (replicate 1000 10) \<noteq> str ''high''
   \<and> calculate_thinking_level [str ''a.py''] (replicate 250 10) = str ''medium''
   \<and> calculate_thinking_level [str ''a.py''] (replicate 250 10) \<noteq> str ''minimal''"
  by (simp add: calculate_thinking_level_def complexity_score_def newlines_plain
      plain_no_security plain_no_async plain_no_classes level_names_differ)

text \<open>
  Claim C4, amended. The level is the threshold mapping (below 1.5 minimal, from 1.5
  and below 3.0 medium, from 3.0 high) of the score of the specification: newline count
  divided by 200 and capped at 2.0, plus 0.5 per file, plus the keyword, async and class
  bonuses. For one file with no keyword, async or class match the level is \<open>minimal\<close>
  when the text has fewer than 200 newlines and \<open>medium\<close> otherwise, never \<open>high\<close>.
\<close>

theorem C4_estimator_thresholds:
  "calculate_thinking_level files code_content =
     spec_level (spec_score (str_count code_content (str ''\<newline>'')) (length files)
        (has_security_code code_content) (has_async code_content) (has_classes code_content))
   \<and> (length files = 1 \<and> \<not> has_security_code code_content \<and> \<not> has_async code_content
        \<and> \<not> has_classes code_content \<longrightarrow>
      calculate_thinking_level files code_content =
        (if str_count code_content (str ''\<newline>'') < 200 then str ''minimal''
         else str ''medium''))"
  by (auto simp: calculate_thinking_level_def complexity_score_def spec_level_def
      spec_score_def min_def Let_def)

theorem C4_estimator_thresholds_witness:
  "length [str ''a.py''] = 1 \<and> \<not> has_security_code (replicate 1000 10)
   \<and> \<not> has_async (replicate 1000 10) \<and> \<not> has_classes (replicate 1000 10)
   \<and> calculate_thinking_level [str ''a.py''] (replicate 1000 10) = str ''medium''"
  using C4_estimator_thresholds [of "[str ''a.py'']" "replicate 1000 10"]
  by (simp add: newlines_plain plain_no_security plain_no_async plain_no_classes
      spec_level_def spec_score_def)


section \<open>The backfilled ids\<close>

text \<open>
  Claim C5, as stated, fails for a reply in which some issues carry ids and others do
  not: the reply with the issues \<open>{"id": 2}\<close> and \<open>{}\<close> is normalized to the ids 2 and 2.
\<close>

theorem C5_counterexample:
  "\<exists>r. parse_json_response reply_mixed_ids = Inr r
     \<and> issue_ids r = [JInt 2, JInt 2]
     \<and> issue_ids r \<noteq> [JInt 1, JInt 2]
     \<and> \<not> distinct (issue_ids r)"
  by (simp add: reply_mixed_ids_def eval_defs)

text \<open>
  Claim C5, amended. When the reply supplies its issues as a list, the result holds a
  list of the same length in which an issue that came with an \<open>id\<close> is unchanged and an
  issue that came without one has its position, counted from 1, as \<open>id\<close>. When no issue
  came with an \<open>id\<close>, the ids of the result are 1 to N in order.
\<close>

theorem C5_ids_backfilled:
  assumes "json_loads (pre_decode t) = Inr d" and "parse_json_response t = Inr r"
    and "py_getitem d (str ''issues'') = Inr (JArray xs)"
  shows "\<exists>ys. py_getitem r (str ''issues'') = Inr (JArray ys) \<and> length ys = length xs
    \<and> (\<forall>n<length xs.
          if has_key (str ''id'') (xs ! n) then ys ! n = xs ! n
          else py_setitem (xs ! n) (str ''id'') (JInt (int n + 1)) = Inr (ys ! n))
    \<and> ((\<forall>x\<in>set xs. \<not> has_key (str ''id'') x) \<longrightarrow>
          issue_ids r = map (\<lambda>n. JInt (int n)) [1..<length xs + 1])"
proof -
  from assms have "validate d = Inr r" by (simp add: parse_after_decode)
  from validate_issues [OF this assms(3)] obtain ys where
        r: "py_getitem r (str ''issues'') = Inr (JArray ys)"
    and b: "backfill 1 xs = Inr ys" and o: "list_all is_object ys"
    by blast
  from backfill_Inr [OF b] have len: "length ys = length xs"
    and step: "\<And>n. n < length xs \<Longrightarrow>
           (py_contains (str ''id'') (xs ! n) = Inr True \<and> ys ! n = xs ! n)
         \<or> (py_contains (str ''id'') (xs ! n) = Inr False
            \<and> py_setitem (xs ! n) (str ''id'') (JInt (int (1 + n))) = Inr (ys ! n))"
    by auto
  have obj: "is_object (xs ! n)" if "n < length xs" for n
  proof -
    from o len that have "is_object (ys ! n)" by (simp add: list_all_length)
    with step [OF that] show ?thesis
      by (auto simp: py_setitem_Inr is_object_def)
  qed
  have each: "if has_key (str ''id'') (xs ! n) then ys ! n = xs ! n
          else py_setitem (xs ! n) (str ''id'') (JInt (int n + 1)) = Inr (ys ! n)"
    if "n < length xs" for n
    using step [OF that] py_contains_object [OF obj [OF that], of "str ''id''"]
    by (auto simp: add.commute)
  have ids: "issue_ids r = map (\<lambda>n. JInt (int n)) [1..<length xs + 1]"
    if none: "\<forall>x\<in>set xs. \<not> has_key (str ''id'') x"
  proof -
    have "py_get (ys ! n) (str ''id'') = Inr (JInt (int n + 1))" if "n < length xs" for n
      using each [OF that] none that by (auto dest: py_get_setitem)
    then have "map (\<lambda>i. case py_get i (str ''id'') of Inr v \<Rightarrow> v | Inl _ \<Rightarrow> JNull) ys
      = map (\<lambda>n. JInt (int n + 1)) [0..<length xs]"
      using len by (intro nth_equalityI) auto
    moreover have "[1..<length xs + 1] = map (\<lambda>n. n + 1) [0..<length xs]"
      by (simp only: map_add_upt)
    ultimately show ?thesis using r by (simp add: issue_ids_def o_def add.commute)
  qed
  from r len each ids show ?thesis by blast
qed

theorem C5_ids_backfilled_witness:
  "\<exists>d r xs. json_loads (pre_decode reply_no_ids) = Inr d
     \<and> parse_json_response reply_no_ids = Inr r
     \<and> py_getitem d (str ''issues'') = Inr (JArray xs)
     \<and> (\<forall>x\<in>set xs. \<not> has_key (str ''id'') x)
     \<and> issue_ids r = [JInt 1, JInt 2]"
proof -
  have d: "json_loads (pre_decode reply_no_ids) =
      Inr (JObject [(str ''issues'',
        JArray [JObject [(str ''title'', JString (str ''a''))],
                JObject [(str ''title'', JString (str ''b''))]])])"
    by (simp add: reply_no_ids_def eval_defs)
  have "\<exists>r. parse_json_response reply_no_ids = Inr r"
    by (simp add: reply_no_ids_def eval_defs)
  then obtain r where r: "parse_json_response reply_no_ids = Inr r" by blast
  have x: "py_getitem (JObject [(str ''issues'',
        JArray [JObject [(str ''title'', JString (str ''a''))],
                JObject [(str ''title'', JString (str ''b''))]])]) (str ''issues'')
      = Inr (JArray [JObject [(str ''title'', JString (str ''a''))],
                JObject [(str ''title'', JString (str ''b''))]])"
    by (simp add: py_getitem_def)
  have none: "\<forall>x\<in>set [JObject [(str ''title'', JString (str ''a''))],
                JObject [(str ''title'', JString (str ''b''))]]. \<not> has_key (str ''id'') x"
    by (simp add: has_key_def str_def)
  from C5_ids_backfilled [OF d r x] none
  have "issue_ids r = map (\<lambda>n. JInt (int n))
      [1..<length [JObject [(str ''title'', JString (str ''a''))],
                JObject [(str ''title'', JString (str ''b''))]] + 1]"
    by blast
  then have "issue_ids r = [JInt 1, JInt 2]" by (simp add: upt_rec)
  with d r x none show ?thesis by blast
qed


section \<open>The overwritten counters\<close>





section \<open>Structural defaults\<close>

text \<open>
  Claim C7. The reply \<open>{"issues": [{"title":"x"}]}\<close> is normalized to a result with the
  synthesized summary of verdict \<open>request_changes\<close>, with the id 1 on its one issue and
  with the stats 0, 0 and 0; and in every result, issues that the reply lacks are the
  empty list, and so are positive aspects that the reply lacks.
\<close>

theorem C7_defaults:
  "parse_json_response (str ''{\"issues\": [{\"title\":\"x\"}]}'') =
     Inr (JObject
        [(str ''issues'',
            JArray [JObject [(str ''title'', JString (str ''x'')), (str ''id'', JInt 1)]]),
         (str ''summary'',
            JObject [(str ''verdict'', JString (str ''request_changes'')),
                     (str ''overview'', JString (str ''Review completed'')),
                     (str ''stats'',
                        JObject [(str ''blocking'', JInt 0), (str ''warning'', JInt 0),
                                 (str ''suggestion'', JInt 0)])]),
         (str ''positive_aspects'', JArray [])])
   \<and> (json_loads (pre_decode t) = Inr d \<and> parse_json_response t = Inr r \<longrightarrow>
        (\<not> has_key (str ''issues'') d \<longrightarrow> py_getitem r (str ''issues'') = Inr (JArray []))
      \<and> (\<not> has_key (str ''positive_aspects'') d \<longrightarrow>
           py_getitem r (str ''positive_aspects'') = Inr (JArray [])))"
proof (intro conjI impI)
  show "parse_json_response (str ''{\"issues\": [{\"title\":\"x\"}]}'') =
     Inr (JObject
        [(str ''issues'',
            JArray [JObject [(str ''title'', JString (str ''x'')), (str ''id'', JInt 1)]]),
         (str ''summary'',
            JObject [(str ''verdict'', JString (str ''request_changes'')),
                     (str ''overview'', JString (str ''Review completed'')),
                     (str ''stats'',
                        JObject [(str ''blocking'', JInt 0), (str ''warning'', JInt 0),
                                 (str ''suggestion'', JInt 0)])]),
         (str ''positive_aspects'', JArray [])])"
    by (simp add: eval_defs)
next
  assume "json_loads (pre_decode t) = Inr d \<and> parse_json_response t = Inr r"
    and "\<not> has_key (str ''issues'') d"
  then show "py_getitem r (str ''issues'') = Inr (JArray [])"
    using parse_after_decode [of t d] by (intro validate_missing_issues [of d]) simp_all
next
  assume "json_loads (pre_decode t) = Inr d \<and> parse_json_response t = Inr r"
    and "\<not> has_key (str ''positive_aspects'') d"
  then show "py_getitem r (str ''positive_aspects'') = Inr (JArray [])"
    using parse_after_decode [of t d] by (intro validate_missing_positive [of d]) simp_all
qed

theorem C7_defaults_witness:
  "\<exists>d r. json_loads (pre_decode reply_summary_only) = Inr d
     \<and> parse_json_response reply_summary_only = Inr r
     \<and> \<not> has_key (str ''issues'') d \<and> \<not> has_key (str ''positive_aspects'') d
     \<and> py_getitem r (str ''issues'') = Inr (JArray [])
     \<and> py_getitem r (str ''positive_aspects'') = Inr (JArray [])"
proof -
  have d: "json_loads (pre_decode reply_summary_only) =
      Inr (JObject [(str ''summary'', JObject [(str ''verdict'', JString (str ''approve''))])])"
    by (simp add: reply_summary_only_def eval_defs)
  have "\<exists>r. parse_json_response reply_summary_only = Inr r"
    by (simp add: reply_summary_only_def eval_defs)
  then obtain r where r: "parse_json_response reply_summary_only = Inr r" by blast
  have no: "\<not> has_key (str ''issues'')
        (JObject [(str ''summary'', JObject [(str ''verdict'', JString (str ''approve''))])])"
    "\<not> has_key (str ''positive_aspects'')
        (JObject [(str ''summary'', JObject [(str ''verdict'', JString (str ''approve''))])])"
    by (simp_all add: has_key_def str_def)
  from C7_defaults [of reply_summary_only _ r] d r no show ?thesis by blast
qed


section \<open>Fenced and plain replies\<close>

text \<open>
  Claim C8, as stated, fails: a valid document with a fence marker inside one of its
  strings is left alone by the fence search when it stands alone, but the search cuts
  the wrapped text at that marker.
\<close>

theorem C8_counterexample:
  "fence_search reply_fence_in_string = None
   \<and> (\<exists>r. parse_json_response reply_fence_in_string = Inr r \<and> success_shaped r)
   \<and> parse_json_response (fence @ str ''json'' @ [10] @ reply_fence_in_string @ [10] @ fence)
       = Inr (error_result
           (str ''Unterminated string starting at: line 1 column 26 (char 25)'')
           (str ''{\"summary\": {\"overview\": \"use''))
   \<and> parse_json_response (fence @ str ''json'' @ [10] @ reply_fence_in_string @ [10] @ fence)
       \<noteq> parse_json_response reply_fence_in_string"
  by (simp add: reply_fence_in_string_def eval_defs success_shaped_def)

text \<open>
  Claim C8, amended. For every text that holds no fence marker and is, once trimmed, a
  valid JSON document, \<open>parse_json_response\<close> gives the same result for the text alone
  and for the text wrapped in a fenced block: a fence, the tag \<open>json\<close> or no tag, white
  space or none, the text, white space or none, a fence.
\<close>

theorem C8_fence_wrapping:
  assumes "json_loads (str_strip t) = Inr d" and "\<not> str_contains t fence"
    and "tag = [] \<or> tag = str ''json''"
    and "list_all is_space ws1" and "list_all is_space ws2"
  shows "parse_json_response (fence @ tag @ ws1 @ t @ ws2 @ fence) = parse_json_response t"
proof -
  define s where "s = str_strip t"
  obtain l r where t: "t = l @ s @ r" and l: "list_all is_space l" and r: "list_all is_space r"
    using strip_decompose [of t] unfolding s_def by blast
  from json_loads_first [OF assms(1)] json_loads_last [OF assms(1)]
  have s: "s \<noteq> []" "hd s \<noteq> 106" "last s \<noteq> 96" by (auto simp: s_def)
  have ends: "\<not> is_space (hd s)" "\<not> is_space (last s)"
    using strip_ends [of t] s(1) by (auto simp: s_def)
  have "\<not> str_contains (s @ r) fence"
    using assms(2) str_contains_suffix [of "s @ r" fence l] by (auto simp: t)
  then have "\<not> str_contains s fence"
    using str_contains_prefix [of s fence r] by auto
  then have "pre_decode (fence @ tag @ (ws1 @ l) @ s @ (r @ ws2) @ fence) = s"
    using s ends assms(3-5) l r
    by (intro pre_decode_wrapped) simp_all
  then have "pre_decode (fence @ tag @ ws1 @ t @ ws2 @ fence) = s"
    by (simp add: t)
  with pre_decode_plain [OF assms(2)]
  have "pre_decode (fence @ tag @ ws1 @ t @ ws2 @ fence) = pre_decode t"
    by (simp add: s_def)
  then show ?thesis
    by (simp add: parse_json_response_def)
qed

theorem C8_fence_wrapping_witness:
  "(\<exists>d. json_loads (str_strip reply_no_ids) = Inr d)
   \<and> \<not> str_contains reply_no_ids fence
   \<and> list_all is_space [10]
   \<and> parse_json_response (fence @ str ''json'' @ [10] @ reply_no_ids @ [10] @ fence)
       = parse_json_response reply_no_ids
   \<and> parse_json_response (fence @ reply_no_ids @ fence) = parse_json_response reply_no_ids"
proof -
  have "\<exists>d. json_loads (str_strip reply_no_ids) = Inr d"
    by (simp add: reply_no_ids_def eval_defs)
  then obtain d where d: "json_loads (str_strip reply_no_ids) = Inr d" by blast
  have n: "\<not> str_contains reply_no_ids fence"
    by (simp add: reply_no_ids_def str_def fence_def)
  have w: "list_all is_space [10]" "list_all is_space []" by (simp_all add: is_space_def)
  from C8_fence_wrapping [OF d n _ w(1) w(1), of "str ''json''"]
    C8_fence_wrapping [OF d n _ w(2) w(2), of "[]"] d n w
  show ?thesis by auto
qed


section \<open>The parse error result\<close>




section \<open>Oversized files\<close>



end
